theory Spec2Isabelle
  imports Main
begin

section \<open>JavaScript library functions used by lint.ts\<close>

text \<open>
  Every failure of the source is a value. \<open>assert(e)\<close> of Node's \<open>assert\<close> module throws an
  \<open>AssertionError\<close>; the source passes no message, so the payload records the asserted
  expression, which identifies the assertion that failed. \<open>throw new Error(m)\<close> is
  \<open>Error m\<close>.
\<close>

datatype error = AssertionError string | Error string

text \<open>
  \<open>Array.prototype.indexOf(x)\<close>: the smallest index holding \<open>x\<close>, or \<open>-1\<close>.
\<close>

definition array_indexOf :: "'a list \<Rightarrow> 'a \<Rightarrow> int" where
  "array_indexOf xs x =
     (case find (\<lambda>k. xs ! k = x) [0..<length xs] of
        None \<Rightarrow> - 1
      | Some k \<Rightarrow> int k)"

text \<open>
  \<open>Array.prototype.slice(start, end)\<close>: a negative index counts from the end, and both
  indices are clamped to the array. \<open>slice(start)\<close> runs to the end of the array.
\<close>

definition relativeIndex :: "nat \<Rightarrow> int \<Rightarrow> nat" where
  "relativeIndex len i = (if i < 0 then nat (max (int len + i) 0) else min (nat i) len)"

definition slice :: "'a list \<Rightarrow> int \<Rightarrow> int \<Rightarrow> 'a list" where
  "slice xs start end' =
     (let k = relativeIndex (length xs) start;
          final = relativeIndex (length xs) end'
      in take (final - k) (drop k xs))"

definition slice_from :: "'a list \<Rightarrow> int \<Rightarrow> 'a list" where
  "slice_from xs start = drop (relativeIndex (length xs) start) xs"

text \<open>
  \<open>String.prototype.indexOf(searchString, position)\<close>: the search starts at \<open>position\<close>
  clamped to the string, and returns the smallest index at which \<open>searchString\<close> occurs, or
  \<open>-1\<close>. A string is a list of characters and an offset is an index into that list, as
  JavaScript counts the code units of a string; the functions only compare characters, so
  they do not depend on the width of a character.
\<close>

definition occurs_at :: "string \<Rightarrow> string \<Rightarrow> nat \<Rightarrow> bool" where
  "occurs_at s searchString k \<longleftrightarrow>
     k + length searchString \<le> length s \<and> take (length searchString) (drop k s) = searchString"

definition clamp_position :: "string \<Rightarrow> int \<Rightarrow> nat" where
  "clamp_position s position = nat (min (max position 0) (int (length s)))"

definition string_indexOf :: "string \<Rightarrow> string \<Rightarrow> int \<Rightarrow> int" where
  "string_indexOf s searchString position =
     (let start = clamp_position s position in
      case find (occurs_at s searchString) [start..<Suc (length s)] of
        None \<Rightarrow> - 1
      | Some k \<Rightarrow> int k)"

definition string_includes :: "string \<Rightarrow> string \<Rightarrow> bool" where
  "string_includes s searchString \<longleftrightarrow> string_indexOf s searchString 0 \<noteq> - 1"

definition charAt :: "string \<Rightarrow> int \<Rightarrow> string" where
  "charAt s i = (if 0 \<le> i \<and> i < int (length s) then [s ! nat i] else [])"

text \<open>
  \<open>JSON.stringify\<close> of a non-negative integer is its decimal numeral.
\<close>

fun digit_char :: "nat \<Rightarrow> char" where
  "digit_char n = char_of (48 + n)"

fun number_toString :: "nat \<Rightarrow> string" where
  "number_toString n =
     (if n < 10 then [digit_char n]
      else number_toString (n div 10) @ [digit_char (n mod 10)])"

text \<open>
  A value of the union \<open>string | boolean | undefined\<close>, and its truthiness: \<open>undefined\<close>,
  \<open>false\<close> and the empty string are falsy.
\<close>

datatype js_value = Undefined | Str string | Bool bool

fun truthy :: "js_value \<Rightarrow> bool" where
  "truthy Undefined = False"
| "truthy (Str s) = (s \<noteq> [])"
| "truthy (Bool b) = b"

text \<open>
  \<open>a || b\<close> on optional objects: an object is always truthy, \<open>undefined\<close> is not.
\<close>

definition or_else :: "'a option \<Rightarrow> 'a option \<Rightarrow> 'a option" where
  "or_else a b = (case a of Some x \<Rightarrow> Some x | None \<Rightarrow> b)"

subsection \<open>Facts about the library functions\<close>

lemma find_upt_None: "find P [a..<b] = None \<longleftrightarrow> (\<forall>k. a \<le> k \<and> k < b \<longrightarrow> \<not> P k)"
  by (auto simp: find_None_iff)

lemma find_upt_Some:
  "find P [a..<b] = Some k \<longleftrightarrow> a \<le> k \<and> k < b \<and> P k \<and> (\<forall>j. a \<le> j \<and> j < k \<longrightarrow> \<not> P j)"
proof
  assume "find P [a..<b] = Some k"
  then obtain m where m: "m < b - a" "P ([a..<b] ! m)" "k = [a..<b] ! m"
    "\<forall>j<m. \<not> P ([a..<b] ! j)"
    by (auto simp: find_Some_iff)
  then have km: "k = a + m" by simp
  have "\<not> P j" if "a \<le> j" "j < k" for j
  proof -
    from that km have "j - a < m" by simp
    with m(4) have "\<not> P ([a..<b] ! (j - a))" by blast
    moreover have "[a..<b] ! (j - a) = j"
      using that km m(1) by simp
    ultimately show ?thesis by simp
  qed
  with m km show "a \<le> k \<and> k < b \<and> P k \<and> (\<forall>j. a \<le> j \<and> j < k \<longrightarrow> \<not> P j)"
    by auto
next
  assume r: "a \<le> k \<and> k < b \<and> P k \<and> (\<forall>j. a \<le> j \<and> j < k \<longrightarrow> \<not> P j)"
  then have "k - a < length [a..<b] \<and> P ([a..<b] ! (k - a)) \<and> k = [a..<b] ! (k - a)
             \<and> (\<forall>j<k - a. \<not> P ([a..<b] ! j))"
    by auto
  then show "find P [a..<b] = Some k"
    unfolding find_Some_iff by blast
qed

lemma array_indexOf_notin: "x \<notin> set xs \<Longrightarrow> array_indexOf xs x = - 1"
proof -
  assume "x \<notin> set xs"
  then have "find (\<lambda>k. xs ! k = x) [0..<length xs] = None"
    by (auto simp: find_None_iff)
  then show ?thesis by (simp add: array_indexOf_def)
qed

lemma array_indexOf_in:
  assumes "x \<in> set xs"
  shows "\<exists>k<length xs. array_indexOf xs x = int k \<and> xs ! k = x \<and> (\<forall>j<k. xs ! j \<noteq> x)"
proof -
  from assms obtain i where i: "i < length xs" "xs ! i = x"
    by (auto simp: in_set_conv_nth)
  then have "find (\<lambda>k. xs ! k = x) [0..<length xs] \<noteq> None"
    by (auto simp: find_None_iff)
  then obtain k where k: "find (\<lambda>k. xs ! k = x) [0..<length xs] = Some k"
    by auto
  then obtain m where m: "m < length xs" "xs ! ([0..<length xs] ! m) = x" "k = [0..<length xs] ! m"
    "\<forall>j<m. xs ! ([0..<length xs] ! j) \<noteq> x"
    by (auto simp: find_Some_iff)
  then have "k < length xs" "xs ! k = x" "\<forall>j<k. xs ! j \<noteq> x"
    by auto
  with k show ?thesis by (auto simp: array_indexOf_def)
qed

lemma array_indexOf_nth:
  assumes "distinct xs" "i < length xs"
  shows "array_indexOf xs (xs ! i) = int i"
proof -
  from assms have "xs ! i \<in> set xs" by simp
  from array_indexOf_in [OF this] obtain k where
    k: "k < length xs" "array_indexOf xs (xs ! i) = int k" "xs ! k = xs ! i" by blast
  with assms have "k = i" by (simp add: nth_eq_iff_index_eq)
  with k show ?thesis by simp
qed

lemma array_indexOf_map_inj:
  assumes "inj f"
  shows "array_indexOf (map f xs) (f x) = array_indexOf xs x"
proof -
  have "find (\<lambda>k. map f xs ! k = f x) [0..<length xs] = find (\<lambda>k. xs ! k = x) [0..<length xs]"
    using assms by (intro find_cong) (auto simp: inj_eq)
  then show ?thesis by (simp add: array_indexOf_def)
qed

lemma array_indexOf_cases:
  "array_indexOf xs x = - 1 \<and> x \<notin> set xs \<or> (0 \<le> array_indexOf xs x \<and> x \<in> set xs)"
  using array_indexOf_notin [of x xs] array_indexOf_in [of x xs] by (cases "x \<in> set xs") auto

lemma slice_nonneg:
  "0 \<le> i \<Longrightarrow> i \<le> j \<Longrightarrow> j \<le> int (length xs) \<Longrightarrow>
   slice xs i j = take (nat j - nat i) (drop (nat i) xs)"
  by (auto simp: slice_def relativeIndex_def Let_def min_def)

lemma clamp_position_nat [simp]: "clamp_position s (int k) = min k (length s)"
  by (simp add: clamp_position_def min_def)

lemma string_indexOf_found:
  assumes "string_indexOf s n p \<noteq> - 1"
  shows "\<exists>k. string_indexOf s n p = int k \<and> clamp_position s p \<le> k \<and> occurs_at s n k
          \<and> (\<forall>j. clamp_position s p \<le> j \<and> j < k \<longrightarrow> \<not> occurs_at s n j)"
proof -
  from assms obtain k where
    k: "find (occurs_at s n) [clamp_position s p..<Suc (length s)] = Some k"
    by (auto simp: string_indexOf_def Let_def split: option.splits)
  then have "string_indexOf s n p = int k"
    by (simp add: string_indexOf_def Let_def)
  with k show ?thesis
    unfolding find_upt_Some by blast
qed

lemma string_indexOf_none:
  assumes "string_indexOf s n p = - 1" "clamp_position s p \<le> k"
  shows "\<not> occurs_at s n k"
proof
  assume o: "occurs_at s n k"
  then have "k < Suc (length s)" by (simp add: occurs_at_def)
  with assms(2) o have "find (occurs_at s n) [clamp_position s p..<Suc (length s)] \<noteq> None"
    unfolding find_upt_None by blast
  with assms(1) show False
    by (auto simp: string_indexOf_def Let_def split: option.splits)
qed

lemma string_indexOf_advances:
  assumes "string_indexOf s n lastIndex \<noteq> - 1" "n \<noteq> []"
  shows "nat lastIndex < nat (string_indexOf s n lastIndex + int (length n))
         \<and> nat (string_indexOf s n lastIndex + int (length n)) \<le> length s"
proof -
  from string_indexOf_found [OF assms(1)] obtain k where
    k: "string_indexOf s n lastIndex = int k" "clamp_position s lastIndex \<le> k" "occurs_at s n k"
    by blast
  define m where "m = length n"
  from assms(2) have m: "0 < m" by (simp add: m_def)
  from k(3) have le: "k + m \<le> length s"
    by (simp add: occurs_at_def m_def)
  with m k(2) have "nat lastIndex \<le> k"
    by (auto simp: clamp_position_def min_def max_def split: if_splits)
  with le m have "nat lastIndex < nat (int k + int m) \<and> nat (int k + int m) \<le> length s"
    by (simp add: nat_add_distrib)
  then show ?thesis
    by (simp only: k(1) m_def)
qed

section \<open>Version ranges\<close>

text \<open>
  \<open>TsVersion = TypeScriptVersion | "local"\<close>. \<open>TypeScriptVersion\<close> is the string type of the
  package \<open>@definitelytyped/typescript-versions\<close>; its constants \<open>TypeScriptVersion.shipped\<close> and
  \<open>TypeScriptVersion.latest\<close> are not part of this repository and are parameters here.
\<close>

type_synonym TypeScriptVersion = string

datatype TsVersion = Version TypeScriptVersion | Local

record TypeScriptVersion_ns =
  shipped :: "TypeScriptVersion list"
  latest :: TypeScriptVersion

definition range_versions ::
  "TypeScriptVersion_ns \<Rightarrow> TsVersion \<Rightarrow> TsVersion \<Rightarrow> error + TsVersion list" where
  \<open>range_versions T minVersion maxVersion =
     (if minVersion = Local then
        (if maxVersion = Local then Inr [Local]
         else Inl (AssertionError ''maxVersion === "local"''))
      else if minVersion = Version (latest T) then
        (if maxVersion = Version (latest T) then Inr [Version (latest T)]
         else Inl (AssertionError ''maxVersion === TypeScriptVersion.latest''))
      else if \<not> maxVersion \<noteq> Local then
        Inl (AssertionError ''maxVersion !== "local"'')
      else
        (let minIdx = array_indexOf (map Version (shipped T)) minVersion in
         if \<not> minIdx \<ge> 0 then Inl (AssertionError ''minIdx >= 0'')
         else if maxVersion = Version (latest T) then
           Inr (slice_from (map Version (shipped T)) minIdx @ [Version (latest T)])
         else
           (let maxIdx = array_indexOf (map Version (shipped T)) maxVersion in
            if \<not> maxIdx \<ge> minIdx then Inl (AssertionError ''maxIdx >= minIdx'')
            else Inr (slice (map Version (shipped T)) minIdx (maxIdx + 1)))))\<close>

lemma array_indexOf_Version:
  "array_indexOf (map Version vs) (Version v) = array_indexOf vs v"
  by (rule array_indexOf_map_inj) (simp add: inj_def)

section \<open>Content policy\<close>

record Err =
  pos :: int
  message :: string

definition testNoTsIgnore :: "string \<Rightarrow> Err option" where
  "testNoTsIgnore txt =
     (let tsIgnore = ''ts-ignore'';
          p = string_indexOf txt tsIgnore 0
      in if p = - 1 then None else Some \<lparr>pos = p, message = '''ts-ignore' is forbidden.''\<rparr>)"

function testNoTslintDisables_loop :: "string \<Rightarrow> int \<Rightarrow> Err option" where
  "testNoTslintDisables_loop txt lastIndex =
     (let tslintDisable = ''tslint:disable'';
          p = string_indexOf txt tslintDisable lastIndex
      in if p = - 1 then None
         else
           (let end' = p + int (length tslintDisable);
                nextChar = charAt txt end'
            in if nextChar \<noteq> ''-'' \<and> nextChar \<noteq> '':'' then
                 Some \<lparr>pos = p,
                       message = '''tslint:disable' is forbidden. '' @
                         ''('tslint:disable:rulename', tslint:disable-line' and 'tslint:disable-next-line' are allowed.)''\<rparr>
               else testNoTslintDisables_loop txt end'))"
  by pat_completeness auto

lemma loop_dom_total: "All testNoTslintDisables_loop_dom"
proof (relation "measure (\<lambda>(txt, lastIndex). length txt - nat lastIndex)")
  show "wf (measure (\<lambda>(txt, lastIndex). length txt - nat lastIndex))"
    by simp
next
  fix s :: string and lastIndex p e :: int and tslintDisable nextChar :: string
  assume "tslintDisable = ''tslint:disable''"
    and "p = string_indexOf s tslintDisable lastIndex" and "p \<noteq> - 1"
    and "e = p + int (length tslintDisable)"
  then show "((s, e), s, lastIndex)
             \<in> measure (\<lambda>(txt, lastIndex). length txt - nat lastIndex)"
    using string_indexOf_advances [of s tslintDisable lastIndex] by auto
qed

termination testNoTslintDisables_loop
  by (rule loop_dom_total)

declare testNoTslintDisables_loop.simps [simp del]

definition testNoTslintDisables :: "string \<Rightarrow> Err option" where
  "testNoTslintDisables txt = (let lastIndex = 0 in testNoTslintDisables_loop txt lastIndex)"

section \<open>Path policy\<close>

text \<open>
  \<open>c.toUpperCase()\<close> is applied only to a character matched by \<open>[a-z]\<close>; on these it
  subtracts 32 from the character code.
\<close>

definition is_lower_az :: "char \<Rightarrow> bool" where
  "is_lower_az c \<longleftrightarrow> 97 \<le> (of_char c :: nat) \<and> (of_char c :: nat) \<le> 122"

definition toUpperCase :: "char \<Rightarrow> char" where
  "toUpperCase c = (if is_lower_az c then char_of ((of_char c :: nat) - 32) else c)"

text \<open>
  \<open>.replace(/\\/g, "/")\<close> turns every backslash into a slash;
  \<open>.replace(/^[a-z](?=:)/, c => c.toUpperCase())\<close> upper-cases a leading lower-case letter
  that is followed by a colon.
\<close>

definition replace_backslashes :: "string \<Rightarrow> string" where
  "replace_backslashes s = map (\<lambda>c. if c = CHR 0x5C then CHR ''/'' else c) s"

fun replace_drive_letter :: "string \<Rightarrow> string" where
  "replace_drive_letter (c # d # rest) =
     (if is_lower_az c \<and> d = CHR '':'' then toUpperCase c # d # rest else c # d # rest)"
| "replace_drive_letter s = s"

text \<open>
  \<open>normalize\<close> of Node's \<open>path\<close> module is external and platform dependent; it is a
  parameter of the functions that call it, named \<open>path_normalize\<close> (HOL has a constant
  \<open>normalize\<close>).
\<close>

definition normalizePath :: "(string \<Rightarrow> string) \<Rightarrow> string \<Rightarrow> string" where
  "normalizePath path_normalize file = replace_drive_letter (replace_backslashes (path_normalize file))"

text \<open>
  Modelled from the spec: \<open>withoutPrefix\<close> of \<open>./util\<close>, which is not among the sources. The
  spec has it compute the file path relative to the project root, and the caller tests its
  result for truthiness: the rest of \<open>s\<close> after \<open>prefix\<close> when \<open>s\<close> starts with \<open>prefix\<close>,
  and \<open>undefined\<close> otherwise.
\<close>

definition withoutPrefix :: "string \<Rightarrow> string \<Rightarrow> string option" where
  "withoutPrefix s prefix =
     (if take (length prefix) s = prefix then Some (drop (length prefix) s) else None)"

text \<open>
  \<open>/^\/ts\d+\.\d/.test(s)\<close>: \<open>s\<close> starts with \<open>/ts\<close>, then one or more digits, a dot
  and a digit. The dot is no digit, so the digits matched by \<open>\d+\<close> are the whole run of
  digits after \<open>/ts\<close>.
\<close>

definition is_digit :: "char \<Rightarrow> bool" where
  "is_digit c \<longleftrightarrow> 48 \<le> (of_char c :: nat) \<and> (of_char c :: nat) \<le> 57"

definition test_ts_directory :: "string \<Rightarrow> bool" where
  "test_ts_directory s \<longleftrightarrow>
     take 3 s = ''/ts'' \<and> takeWhile is_digit (drop 3 s) \<noteq> [] \<and>
     (case dropWhile is_digit (drop 3 s) of
        c # d # rest \<Rightarrow> c = CHR ''.'' \<and> is_digit d
      | _ \<Rightarrow> False)"

definition isTypesVersionPath :: "(string \<Rightarrow> string) \<Rightarrow> string \<Rightarrow> string \<Rightarrow> js_value" where
  "isTypesVersionPath path_normalize fileName dirPath =
     (let normalFileName = normalizePath path_normalize fileName;
          normalDirPath = normalizePath path_normalize dirPath;
          subdirPath = withoutPrefix normalFileName normalDirPath
      in case subdirPath of
           None \<Rightarrow> Undefined
         | Some s \<Rightarrow> if s = [] then Str s else Bool (test_ts_directory s))"

section \<open>Lint configuration\<close>

record VersionToTest =
  versionName :: TsVersion
  path :: string

record ExpectOptions =
  tsconfigPath :: string
  versionsToTest :: "VersionToTest list"

text \<open>
  A rule's arguments are \<open>any[]\<close>: either the options this program writes for the
  \<open>expect\<close> rule, or whatever the configuration file held.
\<close>

datatype rule_argument = ExpectOptionsArg ExpectOptions | OtherArg string

text \<open>
  \<open>Partial<IOptions>\<close> of tslint: every field is optional.
\<close>

record IOptions =
  ruleArguments :: "rule_argument list option"
  ruleSeverity :: "string option"

record IConfigurationFile =
  rules :: "string \<rightharpoonup> IOptions"

record LineAndCharacter =
  line :: nat
  character :: nat

record SourceFile =
  fileName :: string
  "text" :: string
  getLineAndCharacterOfPosition :: "int \<Rightarrow> LineAndCharacter"

record Program =
  getSourceFiles :: "SourceFile list"
  isSourceFileDefaultLibrary :: "SourceFile \<Rightarrow> bool"

record RuleFailure =
  ruleName :: string
  failure :: string

record LintResult =
  failures :: "RuleFailure list"
  "output" :: string

text \<open>
  The external collaborators: the constants of the versions package, the resolver of a
  version's installation path, the file system, Node's \<open>path\<close> module and \<open>__dirname\<close>,
  tslint's configuration loader, the program builder and the rule engine. The rule engine
  is a state \<open>'l\<close> that \<open>linter.lint\<close> updates and \<open>linter.getResult\<close> reads.
\<close>

record 'l externals =
  TypeScriptVersion :: TypeScriptVersion_ns
  typeScriptPath :: "TsVersion \<Rightarrow> string option \<Rightarrow> string"
  pathExists :: "string \<Rightarrow> bool"
  joinPaths :: "string list \<Rightarrow> string"
  path_normalize :: "string \<Rightarrow> string"
  dirname :: string
  findConfiguration :: "string \<Rightarrow> IConfigurationFile option"
  createProgram :: "string \<Rightarrow> Program"
  newLinter :: "bool \<Rightarrow> string \<Rightarrow> Program \<Rightarrow> 'l"
  linter_lint :: "'l \<Rightarrow> string \<Rightarrow> string \<Rightarrow> IConfigurationFile \<Rightarrow> 'l"
  linter_getResult :: "'l \<Rightarrow> LintResult"

definition getConfigPath :: "'l externals \<Rightarrow> string \<Rightarrow> string" where
  "getConfigPath E dirPath = joinPaths E [dirPath, ''tslint.json'']"

text \<open>
  \<open>getLintConfig\<close>: the test \<open>!expectRule || expectRule.ruleSeverity !== "error"\<close> is the
  lookup's \<open>None\<close> case together with the severity test of its \<open>Some\<close> case; past it
  \<open>expectRule\<close> is defined, so the later \<open>if (expectRule)\<close> always holds. The assignment to
  \<open>expectRule.ruleArguments\<close> updates the rule held by the configuration's rule map.
\<close>

definition getLintConfig ::
  "'l externals \<Rightarrow> string \<Rightarrow> string \<Rightarrow> TsVersion \<Rightarrow> TsVersion \<Rightarrow> string option
   \<Rightarrow> error + IConfigurationFile" where
  "getLintConfig E expectedConfigPath tsconfig minVersion maxVersion tsLocal =
     (let configExists = pathExists E expectedConfigPath;
          configPath = (if configExists then expectedConfigPath
                        else joinPaths E [dirname E, ''..'', ''dtslint.json''])
      in case findConfiguration E configPath of
           None \<Rightarrow> Inl (Error (''Could not load config at '' @ configPath))
         | Some config \<Rightarrow>
             (case rules config ''expect'' of
                None \<Rightarrow>
                  Inl (Error '''expect' rule should be enabled, else compile errors are ignored'')
              | Some expectRule \<Rightarrow>
                  if ruleSeverity expectRule \<noteq> Some ''error'' then
                    Inl (Error '''expect' rule should be enabled, else compile errors are ignored'')
                  else
                    (case range_versions (TypeScriptVersion E) minVersion maxVersion of
                       Inl e \<Rightarrow> Inl e
                     | Inr versions \<Rightarrow>
                         (let toTest = map (\<lambda>v. \<lparr>versionName = v,
                                                  path = typeScriptPath E v tsLocal\<rparr>) versions;
                              expectOptions = \<lparr>tsconfigPath = tsconfig, versionsToTest = toTest\<rparr>
                          in Inr (config\<lparr>rules := (rules config)(''expect'' \<mapsto>
                                   expectRule\<lparr>ruleArguments :=
                                     Some [ExpectOptionsArg expectOptions]\<rparr>)\<rparr>)))))"

section \<open>The lint pass\<close>

definition JSON_stringify_place :: "LineAndCharacter \<Rightarrow> string" where
  \<open>JSON_stringify_place place =
     ''{"line":'' @ number_toString (line place) @ '',"character":'' @
     number_toString (character place) @ ''}''\<close>

text \<open>
  The \<open>for\<close> loop over the program's source files. \<open>Inl\<close> is the \<open>return\<close> inside the loop
  (the report of a content-policy violation), \<open>Inr\<close> the rule engine after the last file.
\<close>

fun lint_loop ::
  "'l externals \<Rightarrow> Program \<Rightarrow> string \<Rightarrow> bool \<Rightarrow> IConfigurationFile \<Rightarrow> SourceFile list \<Rightarrow> 'l
   \<Rightarrow> string + 'l" where
  "lint_loop E lintProgram dirPath isLatest config [] linter = Inr linter"
| "lint_loop E lintProgram dirPath isLatest config (file # files) linter =
     (if isSourceFileDefaultLibrary lintProgram file then
        lint_loop E lintProgram dirPath isLatest config files linter
      else
        (case (if \<not> string_includes (fileName file) ''node_modules''
               then or_else (testNoTsIgnore (text file)) (testNoTslintDisables (text file))
               else None) of
           Some err \<Rightarrow>
             Inl (''At '' @ fileName file @ '':'' @
                  JSON_stringify_place (getLineAndCharacterOfPosition file (pos err)) @
                  '': '' @ message err)
         | None \<Rightarrow>
             lint_loop E lintProgram dirPath isLatest config files
               (if \<not> isLatest \<or> \<not> truthy (isTypesVersionPath (path_normalize E) (fileName file) dirPath)
                then linter_lint E linter (fileName file) (text file) config
                else linter)))"

text \<open>
  \<open>lint\<close>: a rejected promise is \<open>Inl\<close>; the resolved value is \<open>Some\<close> of the report text or
  \<open>None\<close> for \<open>undefined\<close>.
\<close>

definition lint ::
  "'l externals \<Rightarrow> string \<Rightarrow> TsVersion \<Rightarrow> TsVersion \<Rightarrow> bool \<Rightarrow> bool \<Rightarrow> string option
   \<Rightarrow> error + string option" where
  "lint E dirPath minVersion maxVersion isLatest expectOnly tsLocal =
     (let tsconfig = joinPaths E [dirPath, ''tsconfig.json''];
          lintProgram = createProgram E tsconfig;
          linter = newLinter E False ''stylish'' lintProgram;
          configPath = (if expectOnly then joinPaths E [dirname E, ''..'', ''dtslint-expect-only.json'']
                        else getConfigPath E dirPath)
      in case getLintConfig E configPath tsconfig minVersion maxVersion tsLocal of
           Inl e \<Rightarrow> Inl e
         | Inr config \<Rightarrow>
             (case lint_loop E lintProgram dirPath isLatest config
                     (getSourceFiles lintProgram) linter of
                Inl report \<Rightarrow> Inr (Some report)
              | Inr linter' \<Rightarrow>
                  (let result = linter_getResult E linter'
                   in Inr (if length (failures result) \<noteq> 0 then Some (output result)
                           else None))))"

section \<open>Specification vocabulary\<close>

text \<open>
  The predicates the properties are stated with. A bare \<open>tslint:disable\<close> is an occurrence
  of the marker whose next character is neither \<open>-\<close> nor \<open>:\<close> (the end of the text counts
  as such). A file passes the content policy when the scan skips it (a default library
  file, or a path containing \<open>node_modules\<close>) or its text holds no banned directive.
\<close>

abbreviation tslintDisable_forbidden :: string where
  "tslintDisable_forbidden \<equiv>
     '''tslint:disable' is forbidden. '' @
     ''('tslint:disable:rulename', tslint:disable-line' and 'tslint:disable-next-line' are allowed.)''"

definition bare_at :: "string \<Rightarrow> nat \<Rightarrow> bool" where
  "bare_at s k \<longleftrightarrow>
     occurs_at s ''tslint:disable'' k \<and>
     charAt s (int k + 14) \<noteq> ''-'' \<and> charAt s (int k + 14) \<noteq> '':''"

definition no_violation :: "Program \<Rightarrow> SourceFile \<Rightarrow> bool" where
  "no_violation lintProgram file \<longleftrightarrow>
     isSourceFileDefaultLibrary lintProgram file
     \<or> string_includes (fileName file) ''node_modules''
     \<or> (\<forall>i. \<not> occurs_at (text file) ''ts-ignore'' i) \<and> (\<forall>k. \<not> bare_at (text file) k)"

section \<open>Sample inputs\<close>

text \<open>
  Concrete inputs on which the properties are evaluated: texts, source files, programs, and
  stand-ins for the external collaborators (a rule engine that accumulates a list of
  failures, a configuration loader that returns a fixed rule set, path functions of a
  POSIX flavour).
\<close>

definition sample_versions :: TypeScriptVersion_ns where
  "sample_versions = \<lparr>shipped = [''3.7'', ''3.8'', ''3.9'', ''4.0''], latest = ''4.1''\<rparr>"

definition latest_shipped_versions :: TypeScriptVersion_ns where
  "latest_shipped_versions = \<lparr>shipped = [''5.8'', ''5.9'', ''6.0''], latest = ''6.0''\<rparr>"

definition disable_line :: string where
  "disable_line = ''tslint:disable-line ''"

definition only_allowed :: string where
  "only_allowed = ''// tslint:disable-next-line no-any tslint:disable:max-line-length''"

definition ten_allowed_then_bare :: string where
  "ten_allowed_then_bare = concat (replicate 10 disable_line) @ ''tslint:disable''"

definition disable_before_ignore :: string where
  "disable_before_ignore = ''/* tslint:disable */ // @ts-ignore''"

definition sample_config :: IConfigurationFile where
  "sample_config =
     \<lparr>rules = [''expect'' \<mapsto> \<lparr>ruleArguments = None, ruleSeverity = Some ''error''\<rparr>,
               ''no-any'' \<mapsto> \<lparr>ruleArguments = None, ruleSeverity = Some ''warning''\<rparr>]\<rparr>"

definition sample_externals ::
  "Program \<Rightarrow> (string \<Rightarrow> RuleFailure list) \<Rightarrow> (RuleFailure list) externals" where
  "sample_externals program engine =
     \<lparr>TypeScriptVersion = sample_versions,
      typeScriptPath = (\<lambda>v tsLocal. case v of
                           Local \<Rightarrow> (case tsLocal of Some p \<Rightarrow> p | None \<Rightarrow> ''typescript'')
                         | Version n \<Rightarrow> ''typescript-'' @ n),
      pathExists = (\<lambda>p. True),
      joinPaths = (\<lambda>ps. foldr (\<lambda>p rest. if rest = [] then p else p @ ''/'' @ rest) ps []),
      path_normalize = (\<lambda>p. p),
      dirname = ''/dtslint/bin'',
      findConfiguration = (\<lambda>p. Some sample_config),
      createProgram = (\<lambda>p. program),
      newLinter = (\<lambda>fix formatter program. []),
      linter_lint = (\<lambda>linter fileName txt config. linter @ engine fileName),
      linter_getResult = (\<lambda>linter. \<lparr>failures = linter, output = concat (map failure linter)\<rparr>)\<rparr>"

definition single_line :: "int \<Rightarrow> LineAndCharacter" where
  "single_line p = \<lparr>line = 0, character = nat p\<rparr>"

definition ignore_at_40 :: SourceFile where
  "ignore_at_40 =
     \<lparr>fileName = ''/project/index.d.ts'',
      text = replicate 40 CHR '' '' @ ''// @ts-ignore'',
      getLineAndCharacterOfPosition = single_line\<rparr>"

definition failing_engine :: "string \<Rightarrow> RuleFailure list" where
  "failing_engine name = [\<lparr>ruleName = ''expect'', failure = ''TypeScript compile error''\<rparr>]"

definition lib_file :: SourceFile where
  "lib_file =
     \<lparr>fileName = ''/typescript/lib/lib.d.ts'',
      text = ''// @ts-ignore'',
      getLineAndCharacterOfPosition = single_line\<rparr>"

definition dependency_file :: SourceFile where
  "dependency_file =
     \<lparr>fileName = ''/project/node_modules/dep/index.d.ts'',
      text = ''/* tslint:disable */'',
      getLineAndCharacterOfPosition = single_line\<rparr>"

definition clean_file :: SourceFile where
  "clean_file =
     \<lparr>fileName = ''/project/index.d.ts'',
      text = ''// tslint:disable-next-line no-any'',
      getLineAndCharacterOfPosition = single_line\<rparr>"

definition is_lib :: "SourceFile \<Rightarrow> bool" where
  "is_lib f \<longleftrightarrow> fileName f = ''/typescript/lib/lib.d.ts''"

definition ignore_program :: Program where
  "ignore_program =
     \<lparr>getSourceFiles = [lib_file, dependency_file, ignore_at_40, clean_file],
      isSourceFileDefaultLibrary = is_lib\<rparr>"

definition clean_program :: Program where
  "clean_program =
     \<lparr>getSourceFiles = [lib_file, dependency_file, clean_file],
      isSourceFileDefaultLibrary = is_lib\<rparr>"

definition quiet_engine :: "string \<Rightarrow> RuleFailure list" where
  "quiet_engine name = []"

definition both_file :: SourceFile where
  "both_file =
     \<lparr>fileName = ''/project/both.d.ts'',
      text = disable_before_ignore,
      getLineAndCharacterOfPosition = single_line\<rparr>"

definition warning_config :: IConfigurationFile where
  "warning_config =
     \<lparr>rules = [''expect'' \<mapsto> \<lparr>ruleArguments = None, ruleSeverity = Some ''warning''\<rparr>]\<rparr>"

definition missing_config :: IConfigurationFile where
  "missing_config =
     \<lparr>rules = [''no-any'' \<mapsto> \<lparr>ruleArguments = None, ruleSeverity = Some ''error''\<rparr>]\<rparr>"

definition win32_separators :: "string \<Rightarrow> string" where
  "win32_separators p = map (\<lambda>c. if c = CHR ''/'' then CHR 0x5C else c) p"

section \<open>Properties of version ranges\<close>

lemma sample_indexOf:
  "array_indexOf (shipped sample_versions) ''3.7'' = 0"
  "array_indexOf (shipped sample_versions) ''3.8'' = 1"
  "array_indexOf (shipped sample_versions) ''4.0'' = 3"
  by (simp_all add: sample_versions_def array_indexOf_def upt_rec)

lemma latest_shipped_indexOf:
  "array_indexOf (shipped latest_shipped_versions) ''6.0'' = 2"
  by (simp add: latest_shipped_versions_def array_indexOf_def upt_rec)

lemma range_versions_shipped:
  assumes "latest T \<noteq> mn" "latest T \<noteq> mx"
    and "array_indexOf (shipped T) mn = int i" "array_indexOf (shipped T) mx = int j"
    and "i \<le> j" "j < length (shipped T)"
  shows "range_versions T (Version mn) (Version mx)
         = Inr (map Version (take (j + 1 - i) (drop i (shipped T))))"
proof -
  have "slice (map Version (shipped T)) (int i) (int j + 1)
        = take (nat (int j + 1) - nat (int i)) (drop (nat (int i)) (map Version (shipped T)))"
    using assms(5,6) by (intro slice_nonneg) auto
  also have "\<dots> = map Version (take (j + 1 - i) (drop i (shipped T)))"
    by (simp add: take_map drop_map nat_add_distrib)
  finally show ?thesis
    using assms by (auto simp: range_versions_def array_indexOf_Version Let_def)
qed

text \<open>
  C1, as the code has it: for version tags \<open>mn\<close> and \<open>mx\<close> of the shipped sequence, with the
  position of \<open>mn\<close> no later than the position of \<open>mx\<close>, and with either none or both of them
  equal to \<open>latest\<close>, \<open>range(mn, mx)\<close> returns the inclusive slice of the shipped sequence from
  the position of \<open>mn\<close> to the position of \<open>mx\<close>: it begins at \<open>mn\<close>, ends at \<open>mx\<close>, has no
  duplicates, and its entries are strictly increasing in their shipped position (the shipped
  sequence being duplicate-free). Whether \<open>latest\<close> is itself a shipped version is left open.
\<close>

theorem range_shipped_slice:
  assumes "distinct (shipped T)"
    and "mn \<in> set (shipped T)" "mx \<in> set (shipped T)"
    and "array_indexOf (shipped T) mn \<le> array_indexOf (shipped T) mx"
    and "(mn = latest T) = (mx = latest T)"
  shows "\<exists>i j vs. array_indexOf (shipped T) mn = int i \<and> array_indexOf (shipped T) mx = int j
           \<and> range_versions T (Version mn) (Version mx) = Inr (map Version vs)
           \<and> vs = take (j + 1 - i) (drop i (shipped T))
           \<and> vs \<noteq> [] \<and> hd vs = mn \<and> last vs = mx \<and> distinct vs
           \<and> sorted_wrt (\<lambda>a b. array_indexOf (shipped T) a < array_indexOf (shipped T) b) vs"
proof -
  from array_indexOf_in [OF assms(2)] obtain i where
    i: "i < length (shipped T)" "array_indexOf (shipped T) mn = int i" "shipped T ! i = mn"
    by blast
  from array_indexOf_in [OF assms(3)] obtain j where
    j: "j < length (shipped T)" "array_indexOf (shipped T) mx = int j" "shipped T ! j = mx"
    by blast
  from assms(4) i(2) j(2) have ij: "i \<le> j" by simp
  define vs where "vs = take (j + 1 - i) (drop i (shipped T))"
  have len: "length vs = j + 1 - i"
    using ij j(1) by (simp add: vs_def)
  have nth: "vs ! k = shipped T ! (i + k)" if "k < length vs" for k
    using that len ij j(1) by (simp add: vs_def)
  have ne: "vs \<noteq> []"
    using len ij by auto
  have r: "range_versions T (Version mn) (Version mx) = Inr (map Version vs)"
  proof (cases "mn = latest T")
    case False
    with assms(5) have "latest T \<noteq> mn" "latest T \<noteq> mx"
      by auto
    then show ?thesis
      unfolding vs_def using i(2) j(2) ij j(1) by (rule range_versions_shipped)
  next
    case True
    with assms(5) have both: "mn = latest T" "mx = latest T"
      by auto
    with i(2) j(2) have "i = j"
      by simp
    with len have "length vs = 1"
      by simp
    moreover from this nth [of 0] i(3) have "vs ! 0 = mn"
      by simp
    ultimately have "vs = [mn]"
      by (cases vs) auto
    with both show ?thesis
      by (simp add: range_versions_def)
  qed
  have h: "hd vs = mn"
    using ne nth [of 0] i(3) by (simp add: hd_conv_nth)
  have l: "last vs = mx"
    using ne nth [of "length vs - 1"] len ij j(3) by (simp add: last_conv_nth)
  have d: "distinct vs"
    using assms(1) by (simp add: vs_def)
  have idx: "array_indexOf (shipped T) (vs ! k) = int (i + k)" if "k < length vs" for k
    using that len ij j(1) nth [OF that] array_indexOf_nth [OF assms(1), of "i + k"] by simp
  have s: "sorted_wrt (\<lambda>a b. array_indexOf (shipped T) a < array_indexOf (shipped T) b) vs"
    by (simp add: sorted_wrt_iff_nth_less idx)
  from i(2) j(2) r ne h l d s show ?thesis
    unfolding vs_def by blast
qed

theorem range_shipped_slice_witness:
  "range_versions sample_versions (Version ''3.8'') (Version ''4.0'')
     = Inr [Version ''3.8'', Version ''3.9'', Version ''4.0'']
   \<and> range_versions latest_shipped_versions (Version ''6.0'') (Version ''6.0'')
     = Inr [Version ''6.0'']"
proof -
  have h1: "distinct (shipped sample_versions)"
    by (simp add: sample_versions_def)
  have h2: "''3.8'' \<in> set (shipped sample_versions)"
    by (simp add: sample_versions_def)
  have h3: "''4.0'' \<in> set (shipped sample_versions)"
    by (simp add: sample_versions_def)
  have h4: "array_indexOf (shipped sample_versions) ''3.8''
            \<le> array_indexOf (shipped sample_versions) ''4.0''"
    by (simp add: sample_indexOf)
  have h5: "(''3.8'' = latest sample_versions) = (''4.0'' = latest sample_versions)"
    by (simp add: sample_versions_def)
  from range_shipped_slice [OF h1 h2 h3 h4 h5] obtain i j vs where
    "array_indexOf (shipped sample_versions) ''3.8'' = int i"
    "array_indexOf (shipped sample_versions) ''4.0'' = int j"
    "range_versions sample_versions (Version ''3.8'') (Version ''4.0'') = Inr (map Version vs)"
    "vs = take (j + 1 - i) (drop i (shipped sample_versions))"
    by blast
  moreover from this have "i = 1" "j = 3"
    by (simp_all add: sample_indexOf)
  ultimately have 1: "range_versions sample_versions (Version ''3.8'') (Version ''4.0'')
             = Inr [Version ''3.8'', Version ''3.9'', Version ''4.0'']"
    by (simp add: sample_versions_def)
  have g1: "distinct (shipped latest_shipped_versions)"
    by (simp add: latest_shipped_versions_def)
  have g2: "''6.0'' \<in> set (shipped latest_shipped_versions)"
    by (simp add: latest_shipped_versions_def)
  have g4: "array_indexOf (shipped latest_shipped_versions) ''6.0''
            \<le> array_indexOf (shipped latest_shipped_versions) ''6.0''"
    by simp
  have g5: "(''6.0'' = latest latest_shipped_versions) = (''6.0'' = latest latest_shipped_versions)"
    by simp
  from range_shipped_slice [OF g1 g2 g2 g4 g5] obtain i' vs' where
    "array_indexOf (shipped latest_shipped_versions) ''6.0'' = int i'"
    "range_versions latest_shipped_versions (Version ''6.0'') (Version ''6.0'')
     = Inr (map Version vs')"
    "vs' = take (i' + 1 - i') (drop i' (shipped latest_shipped_versions))"
    by auto
  moreover from this have "i' = 2"
    by (simp add: latest_shipped_indexOf)
  ultimately have 2: "range_versions latest_shipped_versions (Version ''6.0'') (Version ''6.0'')
             = Inr [Version ''6.0'']"
    by (simp add: latest_shipped_versions_def)
  from 1 2 show ?thesis by blast
qed

text \<open>
  C1 as stated does not hold: when the versions package ships \<open>latest\<close> (it is the last entry
  of the shipped sequence), a shipped pair whose maximum is \<open>latest\<close> takes the branch
  \<open>maxVersion === TypeScriptVersion.latest\<close>, which appends \<open>latest\<close> to a slice that already ends
  with it: the result holds \<open>latest\<close> twice and is no slice of the shipped sequence.
\<close>

theorem range_shipped_latest_twice:
  "distinct (shipped latest_shipped_versions)
   \<and> ''5.9'' \<in> set (shipped latest_shipped_versions)
   \<and> ''6.0'' \<in> set (shipped latest_shipped_versions)
   \<and> array_indexOf (shipped latest_shipped_versions) ''5.9''
       \<le> array_indexOf (shipped latest_shipped_versions) ''6.0''
   \<and> range_versions latest_shipped_versions (Version ''5.9'') (Version ''6.0'')
       = Inr [Version ''5.9'', Version ''6.0'', Version ''6.0'']
   \<and> \<not> distinct [Version ''5.9'', Version ''6.0'', Version ''6.0'']"
  by (simp add: range_versions_def latest_shipped_versions_def array_indexOf_def upt_rec
      slice_from_def relativeIndex_def)

text \<open>
  C7: \<open>range(latest, latest)\<close> is exactly the one-element list holding \<open>latest\<close>, and
  \<open>range("local", "local")\<close> is exactly the one-element list holding \<open>"local"\<close>, whatever the
  shipped sequence is.
\<close>

theorem range_single_entry:
  "range_versions T (Version (latest T)) (Version (latest T)) = Inr [Version (latest T)]
   \<and> range_versions T Local Local = Inr [Local]"
  by (simp add: range_versions_def)

text \<open>
  C4, as the code has it: every failure of \<open>range\<close> is an \<open>AssertionError\<close>, raised before
  any list is built. It fails when \<open>"local"\<close> is paired with another endpoint, when \<open>latest\<close>
  is the minimum and the maximum is not \<open>latest\<close>, when the minimum is neither \<open>"local"\<close> nor
  \<open>latest\<close> and is absent from the shipped sequence, when the maximum is neither \<open>"local"\<close>
  nor \<open>latest\<close> and is absent from the shipped sequence, and when the position of the
  minimum is greater than the position of the maximum. The last two fail at the same
  assertion.
\<close>

theorem range_failures:
  \<open>(mx1 \<noteq> Local \<longrightarrow>
      range_versions T Local mx1 = Inl (AssertionError ''maxVersion === "local"''))
   \<and> (mx2 \<noteq> Version (latest T) \<longrightarrow>
      range_versions T (Version (latest T)) mx2
        = Inl (AssertionError ''maxVersion === TypeScriptVersion.latest''))
   \<and> (a3 \<noteq> latest T \<longrightarrow>
      range_versions T (Version a3) Local = Inl (AssertionError ''maxVersion !== "local"''))
   \<and> (a4 \<noteq> latest T \<and> a4 \<notin> set (shipped T) \<and> mx4 \<noteq> Local \<longrightarrow>
      range_versions T (Version a4) mx4 = Inl (AssertionError ''minIdx >= 0''))
   \<and> (a5 \<noteq> latest T \<and> a5 \<in> set (shipped T) \<and> b5 \<noteq> latest T \<and> b5 \<notin> set (shipped T) \<longrightarrow>
      range_versions T (Version a5) (Version b5) = Inl (AssertionError ''maxIdx >= minIdx''))
   \<and> (a6 \<noteq> latest T \<and> b6 \<noteq> latest T
       \<and> array_indexOf (shipped T) a6 > array_indexOf (shipped T) b6 \<longrightarrow>
      range_versions T (Version a6) (Version b6) = Inl (AssertionError ''maxIdx >= minIdx''))\<close>
proof -
  have c1: "mx1 \<noteq> Local \<longrightarrow>
      range_versions T Local mx1 = Inl (AssertionError ''maxVersion === \"local\"'')"
    by (simp add: range_versions_def)
  have c2: "mx2 \<noteq> Version (latest T) \<longrightarrow>
      range_versions T (Version (latest T)) mx2
        = Inl (AssertionError ''maxVersion === TypeScriptVersion.latest'')"
    by (simp add: range_versions_def)
  have c3: "a3 \<noteq> latest T \<longrightarrow>
      range_versions T (Version a3) Local = Inl (AssertionError ''maxVersion !== \"local\"'')"
    by (simp add: range_versions_def)
  have c4: "a4 \<noteq> latest T \<and> a4 \<notin> set (shipped T) \<and> mx4 \<noteq> Local \<longrightarrow>
      range_versions T (Version a4) mx4 = Inl (AssertionError ''minIdx >= 0'')"
    by (simp add: range_versions_def array_indexOf_Version array_indexOf_notin)
  have c5: "a5 \<noteq> latest T \<and> a5 \<in> set (shipped T) \<and> b5 \<noteq> latest T \<and> b5 \<notin> set (shipped T) \<longrightarrow>
      range_versions T (Version a5) (Version b5) = Inl (AssertionError ''maxIdx >= minIdx'')"
    using array_indexOf_in [of a5 "shipped T"]
    by (auto simp: range_versions_def array_indexOf_Version array_indexOf_notin)
  have c6: "a6 \<noteq> latest T \<and> b6 \<noteq> latest T
       \<and> array_indexOf (shipped T) a6 > array_indexOf (shipped T) b6 \<longrightarrow>
      range_versions T (Version a6) (Version b6) = Inl (AssertionError ''maxIdx >= minIdx'')"
    using array_indexOf_cases [of "shipped T" a6] array_indexOf_cases [of "shipped T" b6] 
    by (auto simp: range_versions_def array_indexOf_Version Let_def)
  from c1 c2 c3 c4 c5 c6 show ?thesis by blast
qed


theorem range_failures_witness:
  \<open>range_versions sample_versions Local (Version ''3.8'')
     = Inl (AssertionError ''maxVersion === "local"'')
   \<and> range_versions sample_versions (Version ''4.1'') (Version ''3.8'')
     = Inl (AssertionError ''maxVersion === TypeScriptVersion.latest'')
   \<and> range_versions sample_versions (Version ''3.8'') Local
     = Inl (AssertionError ''maxVersion !== "local"'')
   \<and> range_versions sample_versions (Version ''9.9'') (Version ''4.0'')
     = Inl (AssertionError ''minIdx >= 0'')
   \<and> range_versions sample_versions (Version ''3.8'') (Version ''9.9'')
     = Inl (AssertionError ''maxIdx >= minIdx'')
   \<and> range_versions sample_versions (Version ''3.8'') (Version ''3.7'')
     = Inl (AssertionError ''maxIdx >= minIdx'')\<close>
  using range_failures [of "Version ''3.8''" sample_versions "Version ''3.8''" "''3.8''"
      "''9.9''" "Version ''4.0''" "''3.8''" "''9.9''" "''3.8''" "''3.7''"]
  by (simp add: sample_indexOf) (simp add: sample_versions_def)

text \<open>
  C4 as stated does not hold: an inverted range and a maximum that is absent from the
  shipped sequence fail with the same error, not with two distinct ones; and \<open>latest\<close>,
  which is absent from the shipped sequence, is a valid maximum.
\<close>

theorem range_errors_not_distinct:
  \<open>range_versions sample_versions (Version ''3.8'') (Version ''3.7'')
     = Inl (AssertionError ''maxIdx >= minIdx'')
   \<and> ''9.9'' \<notin> set (shipped sample_versions)
   \<and> range_versions sample_versions (Version ''3.8'') (Version ''9.9'')
     = range_versions sample_versions (Version ''3.8'') (Version ''3.7'')
   \<and> latest sample_versions \<notin> set (shipped sample_versions)
   \<and> range_versions sample_versions (Version ''3.8'') (Version (latest sample_versions))
     = Inr [Version ''3.8'', Version ''3.9'', Version ''4.0'', Version ''4.1'']\<close>
  by (simp add: range_versions_def sample_versions_def array_indexOf_def upt_rec
      slice_from_def relativeIndex_def)

section \<open>Properties of the content-policy scan\<close>

lemma occurs_at_nth:
  assumes "occurs_at s n k" "i < length n"
  shows "s ! (k + i) = n ! i"
proof -
  from assms have "take (length n) (drop k s) ! i = n ! i" "k + i < length s"
    by (simp_all add: occurs_at_def)
  with assms(2) show ?thesis
    by (simp add: nth_take nth_drop)
qed

lemma tslintDisable_no_overlap:
  assumes "occurs_at s ''tslint:disable'' k" "occurs_at s ''tslint:disable'' j" "k < j"
  shows "k + 14 \<le> j"
proof (rule ccontr)
  assume "\<not> k + 14 \<le> j"
  with assms(3) obtain d where d: "j = k + d" "0 < d" "d < 14"
    by (metis add_diff_inverse_nat less_imp_add_positive not_less nat_add_left_cancel_less
        less_or_eq_imp_le linorder_not_le)
  have a: "s ! (k + d) = ''tslint:disable'' ! d"
    using occurs_at_nth [OF assms(1), of d] d by simp
  have b: "s ! (j + 0) = ''tslint:disable'' ! 0"
    using occurs_at_nth [OF assms(2), of 0] by simp
  from a b d(1) have t: "''tslint:disable'' ! d = CHR ''t''"
    by simp
  have "\<forall>i\<in>set [1..<14]. ''tslint:disable'' ! i = CHR ''t'' \<longrightarrow> i = 5"
    by code_simp
  moreover from d(2,3) have "d \<in> set [1..<14]"
    by simp
  ultimately have d5: "d = 5"
    using t by blast
  have "s ! (k + 6) = ''tslint:disable'' ! 6"
    using occurs_at_nth [OF assms(1), of 6] by simp
  moreover have "s ! (j + 1) = ''tslint:disable'' ! 1"
    using occurs_at_nth [OF assms(2), of 1] by simp
  ultimately show False
    using d(1) d5 by (simp add: add.commute)
qed

lemma loop_not_found:
  assumes "string_indexOf s ''tslint:disable'' lastIndex = - 1"
  shows "testNoTslintDisables_loop s lastIndex = None"
  using assms by (subst testNoTslintDisables_loop.simps) simp

lemma loop_bare:
  assumes "string_indexOf s ''tslint:disable'' lastIndex = int k" "bare_at s k"
  shows "testNoTslintDisables_loop s lastIndex = Some \<lparr>pos = int k, message = tslintDisable_forbidden\<rparr>"
  using assms by (subst testNoTslintDisables_loop.simps) (simp add: bare_at_def Let_def)

lemma loop_qualified:
  assumes "string_indexOf s ''tslint:disable'' lastIndex = int k" "\<not> bare_at s k"
    "occurs_at s ''tslint:disable'' k"
  shows "testNoTslintDisables_loop s lastIndex = testNoTslintDisables_loop s (int k + 14)"
  using assms by (subst testNoTslintDisables_loop.simps) (auto simp: bare_at_def Let_def)

lemma loop_first_bare:
  assumes "clamp_position s lastIndex \<le> k" "bare_at s k"
    "\<forall>j. clamp_position s lastIndex \<le> j \<and> j < k \<longrightarrow> \<not> bare_at s j"
  shows "testNoTslintDisables_loop s lastIndex
         = Some \<lparr>pos = int k, message = tslintDisable_forbidden\<rparr>"
  using assms
proof (induction "k - clamp_position s lastIndex" arbitrary: lastIndex rule: less_induct)
  case less
  from less.prems(2) have ok: "occurs_at s ''tslint:disable'' k"
    by (simp add: bare_at_def)
  with less.prems(1) have "string_indexOf s ''tslint:disable'' lastIndex \<noteq> - 1"
    using string_indexOf_none by blast
  from string_indexOf_found [OF this] obtain k0 where
    k0: "string_indexOf s ''tslint:disable'' lastIndex = int k0"
        "clamp_position s lastIndex \<le> k0" "occurs_at s ''tslint:disable'' k0"
        "\<forall>j. clamp_position s lastIndex \<le> j \<and> j < k0 \<longrightarrow> \<not> occurs_at s ''tslint:disable'' j"
    by blast
  from k0(4) less.prems(1) ok have le: "k0 \<le> k"
    by (meson not_le)
  show ?case
  proof (cases "bare_at s k0")
    case True
    with less.prems(3) k0(2) le have "k0 = k"
      by (meson le_neq_implies_less)
    with True k0(1) show ?thesis
      by (simp add: loop_bare)
  next
    case False
    with less.prems(2) le have lt: "k0 < k"
      by (metis le_neq_implies_less)
    from tslintDisable_no_overlap [OF k0(3) ok lt] have far: "k0 + 14 \<le> k" .
    from ok have "k \<le> length s"
      by (simp add: occurs_at_def)
    with far have cl: "clamp_position s (int k0 + 14) = k0 + 14"
      using clamp_position_nat [of s "k0 + 14"] by simp
    have "testNoTslintDisables_loop s (int k0 + 14)
          = Some \<lparr>pos = int k, message = tslintDisable_forbidden\<rparr>"
    proof (rule less.hyps)
      show "k - clamp_position s (int k0 + 14) < k - clamp_position s lastIndex"
        using cl far k0(2) by simp
      show "clamp_position s (int k0 + 14) \<le> k"
        using cl far by simp
      show "bare_at s k" by fact
      show "\<forall>j. clamp_position s (int k0 + 14) \<le> j \<and> j < k \<longrightarrow> \<not> bare_at s j"
        using less.prems(3) cl k0(2) by simp
    qed
    with loop_qualified [OF k0(1) False k0(3)] show ?thesis
      by simp
  qed
qed

lemma loop_no_bare:
  assumes "\<forall>j. clamp_position s lastIndex \<le> j \<longrightarrow> \<not> bare_at s j"
  shows "testNoTslintDisables_loop s lastIndex = None"
  using assms
proof (induction "length s - nat lastIndex" arbitrary: lastIndex rule: less_induct)
  case less
  show ?case
  proof (cases "string_indexOf s ''tslint:disable'' lastIndex = - 1")
    case True
    then show ?thesis by (rule loop_not_found)
  next
    case False
    from string_indexOf_found [OF False] obtain k0 where
      k0: "string_indexOf s ''tslint:disable'' lastIndex = int k0"
          "clamp_position s lastIndex \<le> k0" "occurs_at s ''tslint:disable'' k0"
      by blast
    from less.prems k0(2) have nb: "\<not> bare_at s k0" by blast
    from string_indexOf_advances [OF False] k0(1)
    have adv: "nat lastIndex < k0 + 14" "k0 + 14 \<le> length s"
      by (simp_all add: nat_add_distrib)
    then have cl: "clamp_position s (int k0 + 14) = k0 + 14"
      using clamp_position_nat [of s "k0 + 14"] by simp
    have "testNoTslintDisables_loop s (int k0 + 14) = None"
    proof (rule less.hyps)
      show "length s - nat (int k0 + 14) < length s - nat lastIndex"
        using adv by (simp add: nat_add_distrib)
      show "\<forall>j. clamp_position s (int k0 + 14) \<le> j \<longrightarrow> \<not> bare_at s j"
        using less.prems cl k0(2) by simp
    qed
    with loop_qualified [OF k0(1) nb k0(3)] show ?thesis
      by simp
  qed
qed

lemma bare_at_bounded: "bare_at s k \<Longrightarrow> k + 14 \<le> length s"
  by (simp add: bare_at_def occurs_at_def)

lemma occurs_at_bounded: "occurs_at s n k \<Longrightarrow> k \<le> length s"
  by (simp add: occurs_at_def)

lemma no_bare_from_list:
  assumes "list_all (\<lambda>j. \<not> bare_at s j) [0..<length s]"
  shows "\<not> bare_at s j"
proof
  assume "bare_at s j"
  with bare_at_bounded [of s j] have "j \<in> set [0..<length s]" "bare_at s j" by simp_all
  with assms show False by (simp add: list_all_iff)
qed

lemma no_occurrence_from_list:
  assumes "list_all (\<lambda>j. \<not> occurs_at s n j) [0..<Suc (length s)]"
  shows "\<not> occurs_at s n j"
proof
  assume "occurs_at s n j"
  with occurs_at_bounded [of s n j] have "j \<in> set [0..<Suc (length s)]" "occurs_at s n j"
    by auto
  with assms show False unfolding list_all_iff by blast
qed

lemma testNoTslintDisables_none:
  assumes "\<forall>k. \<not> bare_at s k"
  shows "testNoTslintDisables s = None"
proof -
  from assms have "\<forall>j. clamp_position s 0 \<le> j \<longrightarrow> \<not> bare_at s j"
    by simp
  then show ?thesis
    by (simp add: testNoTslintDisables_def loop_no_bare)
qed

lemma testNoTslintDisables_bare:
  assumes "bare_at s k" "\<forall>j<k. \<not> bare_at s j"
  shows "testNoTslintDisables s = Some \<lparr>pos = int k, message = tslintDisable_forbidden\<rparr>"
proof -
  from assms have "clamp_position s 0 \<le> k" "bare_at s k"
    "\<forall>j. clamp_position s 0 \<le> j \<and> j < k \<longrightarrow> \<not> bare_at s j"
    by (simp_all add: clamp_position_def)
  then show ?thesis
    by (simp only: testNoTslintDisables_def Let_def loop_first_bare)
qed

lemma occurs_at_append_shift: "occurs_at (a @ s) n (length a + k) = occurs_at s n k"
  by (simp add: occurs_at_def)

lemma charAt_append_shift:
  "charAt (a @ s) (int (length a + k) + 14) = charAt s (int k + 14)"
proof -
  have "nat (int (length a + k) + 14) = length a + (k + 14)" "nat (int k + 14) = k + 14"
    by simp_all
  then show ?thesis
    by (simp add: charAt_def nth_append)
qed

lemma bare_at_append_shift: "bare_at (a @ s) (length a + k) = bare_at s k"
  by (simp only: bare_at_def occurs_at_append_shift charAt_append_shift)

lemma disable_line_no_bare:
  assumes "j < 20"
  shows "\<not> bare_at (disable_line @ s) j"
proof (cases "j = 0")
  case True
  then show ?thesis
    by (simp add: bare_at_def charAt_def disable_line_def)
next
  case False
  show ?thesis
  proof
    assume "bare_at (disable_line @ s) j"
    then have o: "occurs_at (disable_line @ s) ''tslint:disable'' j"
      by (simp add: bare_at_def)
    have 0: "(disable_line @ s) ! (j + 0) = CHR ''t''"
      using occurs_at_nth [OF o, of 0] by simp
    have 1: "(disable_line @ s) ! (j + 1) = CHR ''s''"
      using occurs_at_nth [OF o, of 1] by simp
    have "\<forall>i\<in>set [1..<19]. \<not> (disable_line ! i = CHR ''t'' \<and> disable_line ! (i + 1) = CHR ''s'')"
      by code_simp
    moreover have "disable_line ! 19 \<noteq> CHR ''t''" "length disable_line = 20"
      by (simp_all add: disable_line_def)
    moreover from assms False have "j \<in> set [1..<19] \<or> j = 19"
      by auto
    ultimately show False
      using 0 1 by (auto simp: nth_append)
  qed
qed

lemma replicate_disable_line_no_bare:
  "j < 20 * n \<Longrightarrow> \<not> bare_at (concat (replicate n disable_line) @ s) j"
proof (induction n arbitrary: j)
  case 0
  then show ?case by simp
next
  case (Suc n)
  show ?case
  proof (cases "j < 20")
    case True
    then show ?thesis
      using disable_line_no_bare [of j "concat (replicate n disable_line) @ s"] by simp
  next
    case False
    then have "length disable_line \<le> j"
      by (simp add: disable_line_def)
    then obtain k where k: "j = length disable_line + k"
      using le_iff_add by blast
    with Suc.prems have "k < 20 * n"
      by (simp add: disable_line_def)
    with Suc.IH have "\<not> bare_at (concat (replicate n disable_line) @ s) k" .
    then show ?thesis
      unfolding k using bare_at_append_shift [of disable_line "concat (replicate n disable_line) @ s" k]
      by simp
  qed
qed

lemma replicate_disable_line_shift:
  "bare_at (concat (replicate n disable_line) @ s) (20 * n) = bare_at s 0"
proof (induction n)
  case 0
  then show ?case by simp
next
  case (Suc n)
  have "bare_at (disable_line @ (concat (replicate n disable_line) @ s)) (length disable_line + 20 * n)
        = bare_at (concat (replicate n disable_line) @ s) (20 * n)"
    by (rule bare_at_append_shift)
  moreover have "length disable_line + 20 * n = 20 * Suc n"
    by (simp add: disable_line_def)
  moreover have "disable_line @ (concat (replicate n disable_line) @ s)
                 = concat (replicate (Suc n) disable_line) @ s"
    by simp
  ultimately show ?case
    using Suc by (simp only:)
qed

lemma bare_at_end: "bare_at ''tslint:disable'' 0"
  by (simp add: bare_at_def occurs_at_def charAt_def)

lemma only_allowed_facts:
  "list_all (\<lambda>j. \<not> bare_at only_allowed j) [0..<length only_allowed]"
  by code_simp

lemma ten_allowed_then_bare_facts:
  "bare_at ten_allowed_then_bare 200" "\<forall>j<200. \<not> bare_at ten_allowed_then_bare j"
proof -
  have "bare_at ten_allowed_then_bare (20 * 10)"
    unfolding ten_allowed_then_bare_def replicate_disable_line_shift by (rule bare_at_end)
  then show "bare_at ten_allowed_then_bare 200"
    by simp
  show "\<forall>j<200. \<not> bare_at ten_allowed_then_bare j"
  proof (intro allI impI)
    fix j :: nat
    assume "j < 200"
    then have "j < 20 * 10" by simp
    then show "\<not> bare_at ten_allowed_then_bare j"
      unfolding ten_allowed_then_bare_def by (rule replicate_disable_line_no_bare)
  qed
qed

text \<open>
  C3: for every text, the lint-suppression scan reports nothing when every occurrence of
  \<open>tslint:disable\<close> is immediately followed by \<open>-\<close> or \<open>:\<close>, and reports the first bare
  occurrence, at its offset, whatever number of qualified occurrences precede it.
\<close>

theorem testNoTslintDisables_first_bare:
  "((\<forall>j. occurs_at s ''tslint:disable'' j \<longrightarrow>
          charAt s (int j + 14) = ''-'' \<or> charAt s (int j + 14) = '':'')
      \<longrightarrow> testNoTslintDisables s = None)
   \<and> (bare_at s k \<and> (\<forall>j<k. \<not> bare_at s j)
      \<longrightarrow> testNoTslintDisables s = Some \<lparr>pos = int k, message = tslintDisable_forbidden\<rparr>)"
proof (intro conjI impI)
  assume "\<forall>j. occurs_at s ''tslint:disable'' j \<longrightarrow>
            charAt s (int j + 14) = ''-'' \<or> charAt s (int j + 14) = '':''"
  then have "\<forall>k. \<not> bare_at s k"
    by (auto simp: bare_at_def)
  then show "testNoTslintDisables s = None"
    by (rule testNoTslintDisables_none)
next
  assume "bare_at s k \<and> (\<forall>j<k. \<not> bare_at s j)"
  then show "testNoTslintDisables s = Some \<lparr>pos = int k, message = tslintDisable_forbidden\<rparr>"
    using testNoTslintDisables_bare [of s k] by blast
qed

theorem testNoTslintDisables_first_bare_witness:
  "testNoTslintDisables ten_allowed_then_bare
     = Some \<lparr>pos = 200, message = tslintDisable_forbidden\<rparr>
   \<and> testNoTslintDisables only_allowed = None"
proof -
  have 1: "testNoTslintDisables ten_allowed_then_bare
           = Some \<lparr>pos = 200, message = tslintDisable_forbidden\<rparr>"
    using testNoTslintDisables_first_bare [of ten_allowed_then_bare 200]
      ten_allowed_then_bare_facts
    by simp
  have "\<forall>j. \<not> bare_at only_allowed j"
    using no_bare_from_list [OF only_allowed_facts] by blast
  then have "\<forall>j. occurs_at only_allowed ''tslint:disable'' j \<longrightarrow>
          charAt only_allowed (int j + 14) = ''-'' \<or> charAt only_allowed (int j + 14) = '':''"
    by (auto simp: bare_at_def)
  then have 2: "testNoTslintDisables only_allowed = None"
    using testNoTslintDisables_first_bare [of only_allowed 0] by blast
  from 1 2 show ?thesis by blast
qed

text \<open>
  C9: the scan loop terminates on every text and every start index: every argument is in
  the domain of the loop function, because an iteration that does not return moves the start
  index to the end of the occurrence it matched, which is strictly beyond the old start
  index and within the text.
\<close>

theorem testNoTslintDisables_terminates:
  "testNoTslintDisables_loop_dom (s, lastIndex)
   \<and> (string_indexOf s ''tslint:disable'' lastIndex = - 1
      \<or> nat lastIndex < nat (string_indexOf s ''tslint:disable'' lastIndex + 14)
        \<and> nat (string_indexOf s ''tslint:disable'' lastIndex + 14) \<le> length s)"
proof
  show "testNoTslintDisables_loop_dom (s, lastIndex)"
    using loop_dom_total by blast
  show "string_indexOf s ''tslint:disable'' lastIndex = - 1
      \<or> nat lastIndex < nat (string_indexOf s ''tslint:disable'' lastIndex + 14)
        \<and> nat (string_indexOf s ''tslint:disable'' lastIndex + 14) \<le> length s"
    using string_indexOf_advances [of s "''tslint:disable''" lastIndex] by auto
qed

lemma testNoTsIgnore_first:
  assumes "occurs_at s ''ts-ignore'' i"
  shows "\<exists>p\<le>i. testNoTsIgnore s = Some \<lparr>pos = int p, message = '''ts-ignore' is forbidden.''\<rparr>
           \<and> occurs_at s ''ts-ignore'' p \<and> (\<forall>j<p. \<not> occurs_at s ''ts-ignore'' j)"
proof -
  have c: "clamp_position s 0 = 0"
    by (simp add: clamp_position_def)
  with assms have "string_indexOf s ''ts-ignore'' 0 \<noteq> - 1"
    using string_indexOf_none [of s "''ts-ignore''" 0 i] by auto
  from string_indexOf_found [OF this] c obtain p where
    p: "string_indexOf s ''ts-ignore'' 0 = int p" "occurs_at s ''ts-ignore'' p"
       "\<forall>j<p. \<not> occurs_at s ''ts-ignore'' j"
    by auto
  from p(3) assms have "p \<le> i"
    by (meson not_le)
  moreover from p(1)
  have "testNoTsIgnore s = Some \<lparr>pos = int p, message = '''ts-ignore' is forbidden.''\<rparr>"
    by (simp add: testNoTsIgnore_def)
  ultimately show ?thesis
    using p(2,3) by blast
qed

lemma testNoTsIgnore_none:
  assumes "\<forall>i. \<not> occurs_at s ''ts-ignore'' i"
  shows "testNoTsIgnore s = None"
proof -
  have "string_indexOf s ''ts-ignore'' 0 = - 1"
  proof (rule ccontr)
    assume "string_indexOf s ''ts-ignore'' 0 \<noteq> - 1"
    from string_indexOf_found [OF this] assms show False by blast
  qed
  then show ?thesis
    by (simp add: testNoTsIgnore_def)
qed

lemma testNoTslintDisables_reports:
  assumes "bare_at s k"
  shows "testNoTslintDisables s \<noteq> None"
proof -
  define m where "m = (LEAST j. bare_at s j)"
  from assms have "bare_at s m" "\<forall>j<m. \<not> bare_at s j"
    unfolding m_def by (auto intro: LeastI dest: not_less_Least)
  then show ?thesis
    using testNoTslintDisables_bare [of s m] by simp
qed

lemma both_file_facts:
  "bare_at disable_before_ignore 3"
  "occurs_at disable_before_ignore ''ts-ignore'' 25"
  "list_all (\<lambda>j. \<not> occurs_at disable_before_ignore ''ts-ignore'' j) [0..<25]"
  "\<not> string_includes (fileName both_file) ''node_modules''"
  "\<not> is_lib both_file"
  by code_simp+

text \<open>
  C10: for every text that contains a \<open>ts-ignore\<close> occurrence and a bare \<open>tslint:disable\<close>
  occurrence, the violation the scan yields is the \<open>ts-ignore\<close> one, at the first offset of
  \<open>ts-ignore\<close>, wherever the bare \<open>tslint:disable\<close> stands (the lint-suppression scan alone
  would report it); and a scanned file with that text makes the lint pass return the
  \<open>ts-ignore\<close> report.
\<close>

theorem ts_ignore_wins:
  assumes "occurs_at s ''ts-ignore'' i" and "bare_at s k"
  shows "\<exists>p. or_else (testNoTsIgnore s) (testNoTslintDisables s)
               = Some \<lparr>pos = int p, message = '''ts-ignore' is forbidden.''\<rparr>
             \<and> occurs_at s ''ts-ignore'' p \<and> (\<forall>j<p. \<not> occurs_at s ''ts-ignore'' j)
             \<and> testNoTslintDisables s \<noteq> None
             \<and> (text sf = s \<and> \<not> isSourceFileDefaultLibrary lintProgram sf
                  \<and> \<not> string_includes (fileName sf) ''node_modules''
                \<longrightarrow> lint_loop E lintProgram dirPath isLatest config (sf # rest) linter
                    = Inl (''At '' @ fileName sf @ '':'' @
                           JSON_stringify_place (getLineAndCharacterOfPosition sf (int p)) @
                           '': '' @ '''ts-ignore' is forbidden.''))"
proof -
  from testNoTsIgnore_first [OF assms(1)] obtain p where
    p: "testNoTsIgnore s = Some \<lparr>pos = int p, message = '''ts-ignore' is forbidden.''\<rparr>"
       "occurs_at s ''ts-ignore'' p" "\<forall>j<p. \<not> occurs_at s ''ts-ignore'' j"
    by blast
  from p(1) have o: "or_else (testNoTsIgnore s) (testNoTslintDisables s)
                     = Some \<lparr>pos = int p, message = '''ts-ignore' is forbidden.''\<rparr>"
    by (simp add: or_else_def)
  then have "text sf = s \<and> \<not> isSourceFileDefaultLibrary lintProgram sf
               \<and> \<not> string_includes (fileName sf) ''node_modules''
             \<longrightarrow> lint_loop E lintProgram dirPath isLatest config (sf # rest) linter
                 = Inl (''At '' @ fileName sf @ '':'' @
                        JSON_stringify_place (getLineAndCharacterOfPosition sf (int p)) @
                        '': '' @ '''ts-ignore' is forbidden.'')"
    by simp
  with o p(2,3) testNoTslintDisables_reports [OF assms(2)] show ?thesis
    by blast
qed

theorem ts_ignore_wins_witness:
  \<open>bare_at disable_before_ignore 3 \<and> occurs_at disable_before_ignore ''ts-ignore'' 25
   \<and> or_else (testNoTsIgnore disable_before_ignore) (testNoTslintDisables disable_before_ignore)
       = Some \<lparr>pos = 25, message = '''ts-ignore' is forbidden.''\<rparr>
   \<and> lint_loop (sample_externals clean_program failing_engine) clean_program ''/project'' True
        sample_config [both_file] []
       = Inl ''At /project/both.d.ts:{"line":0,"character":25}: 'ts-ignore' is forbidden.''\<close>
proof -
  from ts_ignore_wins [OF both_file_facts(2,1), where sf = both_file
      and lintProgram = clean_program and E = "sample_externals clean_program failing_engine"
      and dirPath = "''/project''" and isLatest = True and config = sample_config
      and rest = "[]" and linter = "[]"]
  obtain p where
    p: "or_else (testNoTsIgnore disable_before_ignore) (testNoTslintDisables disable_before_ignore)
          = Some \<lparr>pos = int p, message = '''ts-ignore' is forbidden.''\<rparr>"
       "occurs_at disable_before_ignore ''ts-ignore'' p"
       "\<forall>j<p. \<not> occurs_at disable_before_ignore ''ts-ignore'' j"
       "text both_file = disable_before_ignore \<and> \<not> isSourceFileDefaultLibrary clean_program both_file
          \<and> \<not> string_includes (fileName both_file) ''node_modules''
        \<longrightarrow> lint_loop (sample_externals clean_program failing_engine) clean_program ''/project'' True
              sample_config [both_file] []
            = Inl (''At '' @ fileName both_file @ '':'' @
                   JSON_stringify_place (getLineAndCharacterOfPosition both_file (int p)) @
                   '': '' @ '''ts-ignore' is forbidden.'')"
    by blast
  from p(3) both_file_facts(2) have "p \<le> 25"
    by (meson not_le)
  moreover from p(2) both_file_facts(3) have "\<not> p < 25"
    by (auto simp: list_all_iff)
  ultimately have p25: "p = 25" by simp
  have "text both_file = disable_before_ignore"
    by (simp add: both_file_def)
  moreover have "\<not> isSourceFileDefaultLibrary clean_program both_file"
    by (simp add: clean_program_def both_file_facts)
  ultimately have "text both_file = disable_before_ignore"
    "\<not> isSourceFileDefaultLibrary clean_program both_file"
    by blast+
  with p(4) both_file_facts(4)
  have "lint_loop (sample_externals clean_program failing_engine) clean_program ''/project'' True
              sample_config [both_file] []
            = Inl (''At '' @ fileName both_file @ '':'' @
                   JSON_stringify_place (getLineAndCharacterOfPosition both_file 25) @
                   '': '' @ '''ts-ignore' is forbidden.'')"
    unfolding p25 by simp
  moreover have "''At '' @ fileName both_file @ '':'' @
                   JSON_stringify_place (getLineAndCharacterOfPosition both_file 25) @
                   '': '' @ '''ts-ignore' is forbidden.''
                 = ''At /project/both.d.ts:{\"line\":0,\"character\":25}: 'ts-ignore' is forbidden.''"
    by code_simp
  ultimately show ?thesis
    using p(1) p25 both_file_facts(1,2) by simp
qed

section \<open>Properties of the lint pass\<close>

lemma lint_loop_no_violation:
  assumes "no_violation lintProgram file"
  shows "\<exists>linter'. lint_loop E lintProgram dirPath isLatest config (file # files) linter
                    = lint_loop E lintProgram dirPath isLatest config files linter'"
proof (cases "isSourceFileDefaultLibrary lintProgram file")
  case True
  then show ?thesis by auto
next
  case False
  with assms have "(if \<not> string_includes (fileName file) ''node_modules''
                    then or_else (testNoTsIgnore (text file)) (testNoTslintDisables (text file))
                    else None) = None"
    by (auto simp: no_violation_def or_else_def testNoTsIgnore_none testNoTslintDisables_none)
  with False show ?thesis
    by (auto simp del: split_paired_Ex)
qed

lemma lint_loop_clean_prefix:
  assumes "\<forall>f\<in>set before. no_violation lintProgram f"
  shows "\<exists>linter'. lint_loop E lintProgram dirPath isLatest config (before @ rest) linter
                    = lint_loop E lintProgram dirPath isLatest config rest linter'"
  using assms
proof (induction before arbitrary: linter)
  case Nil
  then show ?case by auto
next
  case (Cons f before)
  from Cons.prems have "no_violation lintProgram f" by simp
  from lint_loop_no_violation [OF this, where E = E and dirPath = dirPath and isLatest = isLatest
      and config = config and files = "before @ rest" and linter = linter]
  obtain l1 where
    "lint_loop E lintProgram dirPath isLatest config (f # (before @ rest)) linter
     = lint_loop E lintProgram dirPath isLatest config (before @ rest) l1"
    by blast
  moreover from Cons.IH [of l1] Cons.prems obtain l2 where
    "lint_loop E lintProgram dirPath isLatest config (before @ rest) l1
     = lint_loop E lintProgram dirPath isLatest config rest l2"
    by auto
  ultimately show ?case
    by auto
qed

lemma lint_loop_ts_ignore:
  assumes "\<not> isSourceFileDefaultLibrary lintProgram file"
    and "\<not> string_includes (fileName file) ''node_modules''"
    and "occurs_at (text file) ''ts-ignore'' p" and "\<forall>j<p. \<not> occurs_at (text file) ''ts-ignore'' j"
  shows "lint_loop E lintProgram dirPath isLatest config (file # files) linter
         = Inl (''At '' @ fileName file @ '':'' @
                JSON_stringify_place (getLineAndCharacterOfPosition file (int p)) @
                '': '' @ '''ts-ignore' is forbidden.'')"
proof -
  from testNoTsIgnore_first [OF assms(3)] obtain q where
    q: "testNoTsIgnore (text file) = Some \<lparr>pos = int q, message = '''ts-ignore' is forbidden.''\<rparr>"
       "occurs_at (text file) ''ts-ignore'' q" "q \<le> p"
    by blast
  from q(2,3) assms(4) have "q = p"
    by (meson le_neq_implies_less)
  with q(1) assms(1,2) show ?thesis
    by (simp add: or_else_def)
qed

lemma ts_ignore_comment_offset:
  assumes "occurs_at s ''// @ts-ignore'' k"
  shows "occurs_at s ''ts-ignore'' (k + 4)"
proof -
  have len: "length ''// @ts-ignore'' = 13" "length ''ts-ignore'' = 9"
    by simp_all
  from assms have l: "k + 13 \<le> length s" and t: "take 13 (drop k s) = ''// @ts-ignore''"
    unfolding occurs_at_def len by blast+
  have "take 9 (drop (k + 4) s) = drop 4 (take 13 (drop k s))"
    by (simp add: drop_take add.commute)
  also have "\<dots> = ''ts-ignore''"
    by (simp add: t)
  finally have "take 9 (drop (k + 4) s) = ''ts-ignore''" .
  moreover from l have "k + 4 + 9 \<le> length s" by simp
  ultimately show ?thesis
    unfolding occurs_at_def len by blast
qed

lemma getLintConfig_valid:
  assumes "findConfiguration E (if pathExists E expectedConfigPath then expectedConfigPath
                                else joinPaths E [dirname E, ''..'', ''dtslint.json'']) = Some config"
    and "rules config ''expect'' = Some expectRule" and "ruleSeverity expectRule = Some ''error''"
    and "range_versions (TypeScriptVersion E) minVersion maxVersion = Inr versions"
  shows "\<exists>config'. getLintConfig E expectedConfigPath tsconfig minVersion maxVersion tsLocal
                    = Inr config'"
  using assms by (simp add: getLintConfig_def Let_def)

lemma sample_range: "range_versions sample_versions (Version ''3.8'') (Version ''4.1'')
    = Inr [Version ''3.8'', Version ''3.9'', Version ''4.0'', Version ''4.1'']"
  by (simp add: range_versions_def sample_versions_def array_indexOf_def upt_rec
      slice_from_def relativeIndex_def)

lemma sample_config_valid:
  "\<exists>config. getLintConfig (sample_externals program engine)
     (if expectOnly
      then joinPaths (sample_externals program engine)
             [dirname (sample_externals program engine), ''..'', ''dtslint-expect-only.json'']
      else getConfigPath (sample_externals program engine) ''/project'')
     (joinPaths (sample_externals program engine) [''/project'', ''tsconfig.json''])
     (Version ''3.8'') (Version ''4.1'') None = Inr config"
proof (rule getLintConfig_valid)
  show "findConfiguration (sample_externals program engine)
         (if pathExists (sample_externals program engine)
               (if expectOnly
                then joinPaths (sample_externals program engine)
                       [dirname (sample_externals program engine), ''..'', ''dtslint-expect-only.json'']
                else getConfigPath (sample_externals program engine) ''/project'')
          then (if expectOnly
                then joinPaths (sample_externals program engine)
                       [dirname (sample_externals program engine), ''..'', ''dtslint-expect-only.json'']
                else getConfigPath (sample_externals program engine) ''/project'')
          else joinPaths (sample_externals program engine)
                 [dirname (sample_externals program engine), ''..'', ''dtslint.json''])
        = Some sample_config"
    by (simp add: sample_externals_def)
  show "rules sample_config ''expect'' = Some \<lparr>ruleArguments = None, ruleSeverity = Some ''error''\<rparr>"
    by (simp add: sample_config_def)
  show "ruleSeverity \<lparr>ruleArguments = None, ruleSeverity = Some ''error''\<rparr> = Some ''error''"
    by simp
  show "range_versions (TypeScriptVersion (sample_externals program engine))
          (Version ''3.8'') (Version ''4.1'')
        = Inr [Version ''3.8'', Version ''3.9'', Version ''4.0'', Version ''4.1'']"
    by (simp add: sample_externals_def sample_range)
qed

lemma sample_files_facts:
  "is_lib lib_file" "\<not> is_lib ignore_at_40" "\<not> is_lib clean_file" "\<not> is_lib dependency_file"
  "string_includes (fileName dependency_file) ''node_modules''"
  "\<not> string_includes (fileName ignore_at_40) ''node_modules''"
  "\<not> string_includes (fileName clean_file) ''node_modules''"
  "occurs_at (text ignore_at_40) ''// @ts-ignore'' 40"
  "list_all (\<lambda>j. \<not> occurs_at (text ignore_at_40) ''ts-ignore'' j) [0..<44]"
  "list_all (\<lambda>j. \<not> occurs_at (text clean_file) ''ts-ignore'' j) [0..<Suc (length (text clean_file))]"
  "list_all (\<lambda>j. \<not> bare_at (text clean_file) j) [0..<length (text clean_file)]"
  by code_simp+

lemma sample_no_violation:
  "no_violation ignore_program lib_file" "no_violation ignore_program dependency_file"
  "no_violation clean_program lib_file" "no_violation clean_program dependency_file"
  "no_violation clean_program clean_file"
proof -
  show "no_violation ignore_program lib_file" "no_violation clean_program lib_file"
    by (simp_all add: no_violation_def ignore_program_def clean_program_def sample_files_facts)
  show "no_violation ignore_program dependency_file" "no_violation clean_program dependency_file"
    by (simp_all add: no_violation_def sample_files_facts)
  have "\<forall>i. \<not> occurs_at (text clean_file) ''ts-ignore'' i"
    using no_occurrence_from_list [OF sample_files_facts(10)] by blast
  moreover have "\<forall>k. \<not> bare_at (text clean_file) k"
    using no_bare_from_list [OF sample_files_facts(11)] by blast
  ultimately show "no_violation clean_program clean_file"
    by (simp add: no_violation_def)
qed

lemma clean_program_files: "getSourceFiles clean_program = [lib_file, dependency_file, clean_file]"
  by (simp add: clean_program_def)

lemma clean_loop:
  "lint_loop (sample_externals clean_program quiet_engine) clean_program ''/project'' True config
     (getSourceFiles clean_program) [] = Inr []"
  by code_simp

text \<open>
  C2, as the code has it: when the configuration is valid, every file before \<open>file\<close> in the
  program's order is skipped by the scan or free of banned directives, and \<open>file\<close> is a
  scanned file whose text has \<open>// @ts-ignore\<close> starting at offset 40 and no \<open>ts-ignore\<close> before
  it, the run returns the report of \<open>file\<close> whose location is that of offset 44, where
  \<open>ts-ignore\<close> itself starts, with the fixed \<open>ts-ignore\<close> message. Nothing is assumed of the
  rule engine: the report is returned whatever structural failures it holds.
\<close>

theorem lint_reports_ts_ignore:
  assumes "getLintConfig E
             (if expectOnly then joinPaths E [dirname E, ''..'', ''dtslint-expect-only.json'']
              else getConfigPath E dirPath)
             (joinPaths E [dirPath, ''tsconfig.json'']) minVersion maxVersion tsLocal = Inr config"
    and "getSourceFiles (createProgram E (joinPaths E [dirPath, ''tsconfig.json'']))
         = before @ file # after"
    and "\<forall>f\<in>set before. no_violation (createProgram E (joinPaths E [dirPath, ''tsconfig.json''])) f"
    and "\<not> isSourceFileDefaultLibrary (createProgram E (joinPaths E [dirPath, ''tsconfig.json''])) file"
    and "\<not> string_includes (fileName file) ''node_modules''"
    and "occurs_at (text file) ''// @ts-ignore'' 40"
    and "\<forall>j<44. \<not> occurs_at (text file) ''ts-ignore'' j"
  shows "lint E dirPath minVersion maxVersion isLatest expectOnly tsLocal
         = Inr (Some (''At '' @ fileName file @ '':'' @
                      JSON_stringify_place (getLineAndCharacterOfPosition file 44) @
                      '': '' @ '''ts-ignore' is forbidden.''))"
proof -
  define P where "P = createProgram E (joinPaths E [dirPath, ''tsconfig.json''])"
  from ts_ignore_comment_offset [OF assms(6)] have "occurs_at (text file) ''ts-ignore'' 44"
    by simp
  with assms(4,5,7) have r: "lint_loop E P dirPath isLatest config (file # after) l
         = Inl (''At '' @ fileName file @ '':'' @
                JSON_stringify_place (getLineAndCharacterOfPosition file (int 44)) @
                '': '' @ '''ts-ignore' is forbidden.'')" for l
    unfolding P_def by (intro lint_loop_ts_ignore) auto
  from assms(3) have "\<forall>f\<in>set before. no_violation P f"
    by (simp add: P_def)
  from lint_loop_clean_prefix [OF this, where E = E and dirPath = dirPath and isLatest = isLatest
      and config = config and rest = "file # after" and linter = "newLinter E False ''stylish'' P"]
  obtain l' where
    "lint_loop E P dirPath isLatest config (before @ file # after) (newLinter E False ''stylish'' P)
     = lint_loop E P dirPath isLatest config (file # after) l'"
    by blast
  with r assms(2) have "lint_loop E P dirPath isLatest config (getSourceFiles P)
                          (newLinter E False ''stylish'' P)
         = Inl (''At '' @ fileName file @ '':'' @
                JSON_stringify_place (getLineAndCharacterOfPosition file 44) @
                '': '' @ '''ts-ignore' is forbidden.'')"
    by (simp add: P_def)
  with assms(1) show ?thesis
    by (simp add: lint_def Let_def P_def)
qed

theorem lint_reports_ts_ignore_witness:
  \<open>lint (sample_externals ignore_program failing_engine) ''/project''
      (Version ''3.8'') (Version ''4.1'') True False None
    = Inr (Some ''At /project/index.d.ts:{"line":0,"character":44}: 'ts-ignore' is forbidden.'')\<close>
proof -
  define E where "E = sample_externals ignore_program failing_engine"
  have P: "createProgram E (joinPaths E [''/project'', ''tsconfig.json'']) = ignore_program"
    by (simp add: E_def sample_externals_def)
  obtain config where
    1: "getLintConfig E
          (if False then joinPaths E [dirname E, ''..'', ''dtslint-expect-only.json'']
           else getConfigPath E ''/project'')
          (joinPaths E [''/project'', ''tsconfig.json'']) (Version ''3.8'') (Version ''4.1'') None
        = Inr config"
    unfolding E_def using sample_config_valid [of ignore_program failing_engine False] by blast
  have 2: "getSourceFiles (createProgram E (joinPaths E [''/project'', ''tsconfig.json'']))
           = [lib_file, dependency_file] @ ignore_at_40 # [clean_file]"
    by (simp add: P ignore_program_def)
  have 3: "\<forall>f\<in>set [lib_file, dependency_file].
             no_violation (createProgram E (joinPaths E [''/project'', ''tsconfig.json''])) f"
    by (simp add: P sample_no_violation)
  have 4: "\<not> isSourceFileDefaultLibrary
               (createProgram E (joinPaths E [''/project'', ''tsconfig.json''])) ignore_at_40"
    by (simp add: P ignore_program_def sample_files_facts)
  have 5: "\<not> string_includes (fileName ignore_at_40) ''node_modules''"
    by (rule sample_files_facts)
  have 6: "occurs_at (text ignore_at_40) ''// @ts-ignore'' 40"
    by (rule sample_files_facts)
  have 7: "\<forall>j<44. \<not> occurs_at (text ignore_at_40) ''ts-ignore'' j"
    using sample_files_facts(9) by (simp add: list_all_iff)
  have "JSON_stringify_place (getLineAndCharacterOfPosition ignore_at_40 44)
        = ''{\"line\":0,\"character\":44}''"
    by code_simp
  moreover have "fileName ignore_at_40 = ''/project/index.d.ts''"
    by (simp add: ignore_at_40_def)
  ultimately show ?thesis
    using lint_reports_ts_ignore [OF 1 2 3 4 5 6 7, of True] unfolding E_def by simp
qed

text \<open>
  C2 as stated does not hold: for a file with \<open>// @ts-ignore\<close> at offset 40 the reported
  location is that of offset 44, not of offset 40.
\<close>

theorem lint_reports_offset_44_not_40:
  \<open>occurs_at (text ignore_at_40) ''// @ts-ignore'' 40
   \<and> lint (sample_externals ignore_program failing_engine) ''/project''
        (Version ''3.8'') (Version ''4.1'') True False None
      = Inr (Some ''At /project/index.d.ts:{"line":0,"character":44}: 'ts-ignore' is forbidden.'')
   \<and> lint (sample_externals ignore_program failing_engine) ''/project''
        (Version ''3.8'') (Version ''4.1'') True False None
      \<noteq> Inr (Some (''At '' @ fileName ignore_at_40 @ '':'' @
                    JSON_stringify_place (getLineAndCharacterOfPosition ignore_at_40 40) @
                    '': '' @ '''ts-ignore' is forbidden.''))\<close>
  by code_simp

text \<open>
  C8: when the configuration is valid and every file of the program is skipped by the scan
  or free of banned directives, the loop runs to its end, and if the rule engine then
  reports zero failures the run returns the absent value (\<open>undefined\<close>, here \<open>None\<close>), not a
  text.
\<close>

theorem lint_no_violations:
  assumes "getLintConfig E
             (if expectOnly then joinPaths E [dirname E, ''..'', ''dtslint-expect-only.json'']
              else getConfigPath E dirPath)
             (joinPaths E [dirPath, ''tsconfig.json'']) minVersion maxVersion tsLocal = Inr config"
    and "\<forall>f\<in>set (getSourceFiles (createProgram E (joinPaths E [dirPath, ''tsconfig.json'']))).
           no_violation (createProgram E (joinPaths E [dirPath, ''tsconfig.json''])) f"
  shows "\<exists>linter'.
           lint_loop E (createProgram E (joinPaths E [dirPath, ''tsconfig.json''])) dirPath isLatest
             config (getSourceFiles (createProgram E (joinPaths E [dirPath, ''tsconfig.json''])))
             (newLinter E False ''stylish'' (createProgram E (joinPaths E [dirPath, ''tsconfig.json''])))
           = Inr linter'
           \<and> (failures (linter_getResult E linter') = []
              \<longrightarrow> lint E dirPath minVersion maxVersion isLatest expectOnly tsLocal = Inr None)"
proof -
  define P where "P = createProgram E (joinPaths E [dirPath, ''tsconfig.json''])"
  from assms(2) have "\<forall>f\<in>set (getSourceFiles P). no_violation P f"
    by (simp add: P_def)
  from lint_loop_clean_prefix [OF this, where E = E and dirPath = dirPath and isLatest = isLatest
      and config = config and rest = "[]" and linter = "newLinter E False ''stylish'' P"]
  obtain l' where
    l': "lint_loop E P dirPath isLatest config (getSourceFiles P @ []) (newLinter E False ''stylish'' P)
         = lint_loop E P dirPath isLatest config [] l'"
    by blast
  then have "lint_loop E P dirPath isLatest config (getSourceFiles P) (newLinter E False ''stylish'' P)
             = Inr l'"
    by simp
  moreover from this assms(1)
  have "failures (linter_getResult E l') = []
        \<longrightarrow> lint E dirPath minVersion maxVersion isLatest expectOnly tsLocal = Inr None"
    by (simp add: lint_def Let_def P_def)
  ultimately show ?thesis
    unfolding P_def by blast
qed

theorem lint_no_violations_witness:
  "lint (sample_externals clean_program quiet_engine) ''/project''
     (Version ''3.8'') (Version ''4.1'') True False None = Inr None"
proof -
  define E where "E = sample_externals clean_program quiet_engine"
  have P: "createProgram E (joinPaths E [''/project'', ''tsconfig.json'']) = clean_program"
    by (simp add: E_def sample_externals_def)
  have L: "newLinter E False ''stylish'' clean_program = []"
    by (simp add: E_def sample_externals_def)
  obtain config where
    1: "getLintConfig E
          (if False then joinPaths E [dirname E, ''..'', ''dtslint-expect-only.json'']
           else getConfigPath E ''/project'')
          (joinPaths E [''/project'', ''tsconfig.json'']) (Version ''3.8'') (Version ''4.1'') None
        = Inr config"
    unfolding E_def using sample_config_valid [of clean_program quiet_engine False] by blast
  have 2: "\<forall>f\<in>set (getSourceFiles (createProgram E (joinPaths E [''/project'', ''tsconfig.json'']))).
             no_violation (createProgram E (joinPaths E [''/project'', ''tsconfig.json''])) f"
    by (simp add: P clean_program_files sample_no_violation)
  from lint_no_violations [OF 1 2, of True] obtain linter' where
    l: "lint_loop E clean_program ''/project'' True config (getSourceFiles clean_program) [] = Inr linter'"
       "failures (linter_getResult E linter') = []
        \<longrightarrow> lint E ''/project'' (Version ''3.8'') (Version ''4.1'') True False None = Inr None"
    unfolding P L by blast
  from l(1) have "linter' = []"
    unfolding E_def clean_loop by simp
  then have "failures (linter_getResult E linter') = []"
    by (simp add: E_def sample_externals_def)
  with l(2) show ?thesis
    unfolding E_def by blast
qed

section \<open>Properties of the configuration loader\<close>

text \<open>
  C5: when the configuration loads and its \<open>expect\<close> rule is absent or has a severity other
  than \<open>error\<close> (\<open>warning\<close>, \<open>off\<close>, or none), \<open>getLintConfig\<close> fails with the error
  \<open>'expect' rule should be enabled, else compile errors are ignored\<close>; and every
  configuration it returns has an \<open>expect\<close> rule of severity \<open>error\<close>.
\<close>

theorem getLintConfig_misconfigured:
  "(findConfiguration E (if pathExists E expectedConfigPath then expectedConfigPath
                         else joinPaths E [dirname E, ''..'', ''dtslint.json'']) = Some config
     \<and> (rules config ''expect'' = None
        \<or> (\<exists>r. rules config ''expect'' = Some r \<and> ruleSeverity r \<noteq> Some ''error''))
    \<longrightarrow> getLintConfig E expectedConfigPath tsconfig minVersion maxVersion tsLocal
        = Inl (Error '''expect' rule should be enabled, else compile errors are ignored''))
   \<and> (getLintConfig E expectedConfigPath tsconfig minVersion maxVersion tsLocal = Inr config'
    \<longrightarrow> (\<exists>r. rules config' ''expect'' = Some r \<and> ruleSeverity r = Some ''error''))"
proof (intro conjI impI)
  assume "findConfiguration E (if pathExists E expectedConfigPath then expectedConfigPath
                         else joinPaths E [dirname E, ''..'', ''dtslint.json'']) = Some config
     \<and> (rules config ''expect'' = None
        \<or> (\<exists>r. rules config ''expect'' = Some r \<and> ruleSeverity r \<noteq> Some ''error''))"
  then show "getLintConfig E expectedConfigPath tsconfig minVersion maxVersion tsLocal
        = Inl (Error '''expect' rule should be enabled, else compile errors are ignored'')"
    by (auto simp: getLintConfig_def Let_def)
next
  assume "getLintConfig E expectedConfigPath tsconfig minVersion maxVersion tsLocal = Inr config'"
  then show "\<exists>r. rules config' ''expect'' = Some r \<and> ruleSeverity r = Some ''error''"
    by (auto simp: getLintConfig_def Let_def split: option.splits if_splits sum.splits)
qed

theorem getLintConfig_misconfigured_witness:
  "getLintConfig ((sample_externals clean_program quiet_engine)
       \<lparr>findConfiguration := (\<lambda>p. Some warning_config)\<rparr>)
     ''/project/tslint.json'' ''/project/tsconfig.json'' (Version ''3.8'') (Version ''4.1'') None
     = Inl (Error '''expect' rule should be enabled, else compile errors are ignored'')
   \<and> getLintConfig ((sample_externals clean_program quiet_engine)
       \<lparr>findConfiguration := (\<lambda>p. Some missing_config)\<rparr>)
     ''/project/tslint.json'' ''/project/tsconfig.json'' (Version ''3.8'') (Version ''4.1'') None
     = Inl (Error '''expect' rule should be enabled, else compile errors are ignored'')
   \<and> (\<exists>config' r. getLintConfig (sample_externals clean_program quiet_engine)
         ''/project/tslint.json'' ''/project/tsconfig.json'' (Version ''3.8'') (Version ''4.1'') None
         = Inr config'
       \<and> rules config' ''expect'' = Some r \<and> ruleSeverity r = Some ''error'')"
proof -
  have 1: "getLintConfig ((sample_externals clean_program quiet_engine)
       \<lparr>findConfiguration := (\<lambda>p. Some warning_config)\<rparr>)
     ''/project/tslint.json'' ''/project/tsconfig.json'' (Version ''3.8'') (Version ''4.1'') None
     = Inl (Error '''expect' rule should be enabled, else compile errors are ignored'')"
    using getLintConfig_misconfigured
      [of "(sample_externals clean_program quiet_engine)\<lparr>findConfiguration := (\<lambda>p. Some warning_config)\<rparr>"
          "''/project/tslint.json''" warning_config]
    by (simp add: warning_config_def)
  have 2: "getLintConfig ((sample_externals clean_program quiet_engine)
       \<lparr>findConfiguration := (\<lambda>p. Some missing_config)\<rparr>)
     ''/project/tslint.json'' ''/project/tsconfig.json'' (Version ''3.8'') (Version ''4.1'') None
     = Inl (Error '''expect' rule should be enabled, else compile errors are ignored'')"
    using getLintConfig_misconfigured
      [of "(sample_externals clean_program quiet_engine)\<lparr>findConfiguration := (\<lambda>p. Some missing_config)\<rparr>"
          "''/project/tslint.json''" missing_config]
    by (simp add: missing_config_def)
  have "\<exists>config'. getLintConfig (sample_externals clean_program quiet_engine)
         ''/project/tslint.json'' ''/project/tsconfig.json'' (Version ''3.8'') (Version ''4.1'') None
         = Inr config'"
    using sample_config_valid [of clean_program quiet_engine False]
    by (simp add: getConfigPath_def sample_externals_def)
  then obtain config' where
    c: "getLintConfig (sample_externals clean_program quiet_engine)
         ''/project/tslint.json'' ''/project/tsconfig.json'' (Version ''3.8'') (Version ''4.1'') None
         = Inr config'"
    by blast
  with getLintConfig_misconfigured
      [of "sample_externals clean_program quiet_engine" "''/project/tslint.json''" _
          "''/project/tsconfig.json''" "Version ''3.8''" "Version ''4.1''" None config']
  have "\<exists>r. rules config' ''expect'' = Some r \<and> ruleSeverity r = Some ''error''"
    by blast
  with c 1 2 show ?thesis
    by blast
qed

section \<open>Properties of the path policy\<close>

lemma toUpperCase_lower:
  assumes "is_lower_az c"
  shows "\<not> is_lower_az (toUpperCase c)" "toUpperCase c \<noteq> CHR 0x5C"
    "toUpperCase (toUpperCase c) = toUpperCase c"
proof -
  from assms have r: "97 \<le> (of_char c :: nat)" "(of_char c :: nat) \<le> 122"
    by (simp_all add: is_lower_az_def)
  then have u: "(of_char (toUpperCase c) :: nat) = of_char c - 32"
    using assms by (simp add: toUpperCase_def)
  with r show 1: "\<not> is_lower_az (toUpperCase c)"
    by (simp add: is_lower_az_def)
  from u r have "(of_char (toUpperCase c) :: nat) \<noteq> of_char (CHR 0x5C)"
    by simp
  then show "toUpperCase c \<noteq> CHR 0x5C"
    by auto
  from 1 show "toUpperCase (toUpperCase c) = toUpperCase c"
    by (simp add: toUpperCase_def [of "toUpperCase c"])
qed

lemma replace_backslashes_set: "CHR 0x5C \<notin> set (replace_backslashes s)"
  by (auto simp: replace_backslashes_def)

lemma replace_drive_letter_set:
  assumes "CHR 0x5C \<notin> set s"
  shows "CHR 0x5C \<notin> set (replace_drive_letter s)"
proof (cases s rule: replace_drive_letter.cases)
  case (1 c d rest)
  with assms toUpperCase_lower(2) [of c] show ?thesis
    by auto
qed (use assms in auto)

lemma is_lower_az_not_backslash: "is_lower_az c \<Longrightarrow> c \<noteq> CHR 0x5C"
  by (auto simp: is_lower_az_def)

lemma normalizePath_drive:
  assumes "is_lower_az c" "N p = c # CHR '':'' # rest"
  shows "normalizePath N p = toUpperCase c # CHR '':'' # replace_backslashes rest"
  using assms is_lower_az_not_backslash [OF assms(1)]
  by (simp add: normalizePath_def replace_backslashes_def)

lemma normalizePath_drive_upper:
  assumes "is_lower_az c" "N q = toUpperCase c # CHR '':'' # rest"
  shows "normalizePath N q = toUpperCase c # CHR '':'' # replace_backslashes rest"
  using assms toUpperCase_lower [OF assms(1)]
  by (simp add: normalizePath_def replace_backslashes_def)

text \<open>
  C6: \<open>isTypesVersionPath\<close> is true for \<open>/project/ts3.8/index.d.ts\<close> under \<open>/project\<close> and false
  for \<open>/project/index.d.ts\<close>, for every \<open>normalize\<close> that leaves these paths unchanged up to
  the separator; a normalised path holds no backslash; a leading lower-case drive letter
  before a colon is upper-cased; so two paths that \<open>normalize\<close> maps to forms differing only
  in the case of the drive letter are treated identically, as file name and as project root.
\<close>

theorem isTypesVersionPath_policy:
  "(replace_backslashes (N ''/project/ts3.8/index.d.ts'') = ''/project/ts3.8/index.d.ts''
     \<and> replace_backslashes (N ''/project/index.d.ts'') = ''/project/index.d.ts''
     \<and> replace_backslashes (N ''/project'') = ''/project''
    \<longrightarrow> isTypesVersionPath N ''/project/ts3.8/index.d.ts'' ''/project'' = Bool True
      \<and> isTypesVersionPath N ''/project/index.d.ts'' ''/project'' = Bool False)
   \<and> CHR 0x5C \<notin> set (normalizePath N p)
   \<and> (is_lower_az c \<and> N p = c # CHR '':'' # rest
    \<longrightarrow> normalizePath N p = toUpperCase c # CHR '':'' # replace_backslashes rest)
   \<and> (is_lower_az c \<and> N p = c # CHR '':'' # rest \<and> N q = toUpperCase c # CHR '':'' # rest
    \<longrightarrow> normalizePath N p = normalizePath N q
      \<and> isTypesVersionPath N p d = isTypesVersionPath N q d
      \<and> isTypesVersionPath N f p = isTypesVersionPath N f q)"
proof (intro conjI impI)
  assume a: "replace_backslashes (N ''/project/ts3.8/index.d.ts'') = ''/project/ts3.8/index.d.ts''
     \<and> replace_backslashes (N ''/project/index.d.ts'') = ''/project/index.d.ts''
     \<and> replace_backslashes (N ''/project'') = ''/project''"
  then show "isTypesVersionPath N ''/project/ts3.8/index.d.ts'' ''/project'' = Bool True"
    by (simp add: isTypesVersionPath_def normalizePath_def withoutPrefix_def
        test_ts_directory_def is_digit_def is_lower_az_def)
  from a show "isTypesVersionPath N ''/project/index.d.ts'' ''/project'' = Bool False"
    by (simp add: isTypesVersionPath_def normalizePath_def withoutPrefix_def
        test_ts_directory_def is_digit_def is_lower_az_def)
next
  show "CHR 0x5C \<notin> set (normalizePath N p)"
    unfolding normalizePath_def
    by (rule replace_drive_letter_set) (rule replace_backslashes_set)
next
  assume "is_lower_az c \<and> N p = c # CHR '':'' # rest"
  then show "normalizePath N p = toUpperCase c # CHR '':'' # replace_backslashes rest"
    using normalizePath_drive [of c N p rest] by blast
next
  assume a: "is_lower_az c \<and> N p = c # CHR '':'' # rest \<and> N q = toUpperCase c # CHR '':'' # rest"
  then have "normalizePath N p = toUpperCase c # CHR '':'' # replace_backslashes rest"
    "normalizePath N q = toUpperCase c # CHR '':'' # replace_backslashes rest"
    using normalizePath_drive [of c N p rest] normalizePath_drive_upper [of c N q rest]
    by blast+
  then show e: "normalizePath N p = normalizePath N q"
    by simp
  then show "isTypesVersionPath N p d = isTypesVersionPath N q d"
    "isTypesVersionPath N f p = isTypesVersionPath N f q"
    by (simp_all add: isTypesVersionPath_def)
qed

theorem isTypesVersionPath_policy_witness:
  "isTypesVersionPath (\<lambda>p. p) ''/project/ts3.8/index.d.ts'' ''/project'' = Bool True
   \<and> isTypesVersionPath (\<lambda>p. p) ''/project/index.d.ts'' ''/project'' = Bool False
   \<and> isTypesVersionPath win32_separators ''/project/ts3.8/index.d.ts'' ''/project'' = Bool True
   \<and> isTypesVersionPath win32_separators ''/project/index.d.ts'' ''/project'' = Bool False
   \<and> normalizePath win32_separators ''c:/project'' = ''C:/project''
   \<and> isTypesVersionPath win32_separators ''c:/project/ts3.8/index.d.ts'' ''C:/project''
     = isTypesVersionPath win32_separators ''C:/project/ts3.8/index.d.ts'' ''C:/project''"
proof -
  have 1: "isTypesVersionPath (\<lambda>p. p) ''/project/ts3.8/index.d.ts'' ''/project'' = Bool True
      \<and> isTypesVersionPath (\<lambda>p. p) ''/project/index.d.ts'' ''/project'' = Bool False"
    using isTypesVersionPath_policy [of "\<lambda>p. p"]
    by (simp add: replace_backslashes_def)
  have 2: "isTypesVersionPath win32_separators ''/project/ts3.8/index.d.ts'' ''/project'' = Bool True
      \<and> isTypesVersionPath win32_separators ''/project/index.d.ts'' ''/project'' = Bool False"
    using isTypesVersionPath_policy [of win32_separators]
    by (simp add: replace_backslashes_def win32_separators_def)
  have l: "is_lower_az CHR ''c''" "toUpperCase CHR ''c'' = CHR ''C''"
    by code_simp+
  have 3: "normalizePath win32_separators ''c:/project'' = ''C:/project''"
    using isTypesVersionPath_policy
      [of win32_separators "''c:/project''" "CHR ''c''" "win32_separators ''/project''"] l
    by (simp add: replace_backslashes_def win32_separators_def)
  have 4: "isTypesVersionPath win32_separators ''c:/project/ts3.8/index.d.ts'' ''C:/project''
     = isTypesVersionPath win32_separators ''C:/project/ts3.8/index.d.ts'' ''C:/project''"
    using isTypesVersionPath_policy
      [of win32_separators "''c:/project/ts3.8/index.d.ts''" "CHR ''c''"
          "win32_separators ''/project/ts3.8/index.d.ts''" "''C:/project/ts3.8/index.d.ts''"
          "''C:/project''"] l
    by (simp add: win32_separators_def)
  from 1 2 3 4 show ?thesis by blast
qed

end
